theory Spec2Isabelle
  imports Main "HOL-Library.AList" "HOL-Library.Sublist"
begin

section \<open>Python strings\<close>

text \<open>
  A Python \<open>str\<close> is modelled as a \<open>string\<close>: a list of characters, each one a code
  point below 256. \<open>str.strip()\<close> and the regular expression class \<open>\s\<close> remove the
  characters for which \<open>str.isspace()\<close> holds; below 256 these are the code points
  9 to 13, 28 to 32, 133 and 160.
\<close>

definition py_isspace :: "char \<Rightarrow> bool" where
  "py_isspace c = (of_char c \<in> {9, 10, 11, 12, 13, 28, 29, 30, 31, 32, 133, 160 :: nat})"

definition lstrip :: "string \<Rightarrow> string" where
  "lstrip s = dropWhile py_isspace s"

definition rstrip :: "string \<Rightarrow> string" where
  "rstrip s = rev (dropWhile py_isspace (rev s))"

definition strip :: "string \<Rightarrow> string" where
  "strip s = lstrip (rstrip s)"

definition rstrip_chars :: "string \<Rightarrow> string \<Rightarrow> string" where
  "rstrip_chars cs s = rev (dropWhile (\<lambda>c. c \<in> set cs) (rev s))"

definition strip_chars :: "string \<Rightarrow> string \<Rightarrow> string" where
  "strip_chars cs s = dropWhile (\<lambda>c. c \<in> set cs) (rstrip_chars cs s)"

definition startswith :: "string \<Rightarrow> string \<Rightarrow> bool" where
  "startswith s p = (take (length p) s = p)"

definition endswith :: "string \<Rightarrow> string \<Rightarrow> bool" where
  "endswith s p = startswith (rev s) (rev p)"

section \<open>Elements\<close>

text \<open>
  A tag of the parsed document, as the tree library keeps it: its name and its attribute
  dictionary. The library stores the \<open>class\<close> attribute as a list of tokens and the other
  attributes as strings, so the model keeps the class list in a field of its own (\<open>None\<close>
  when the attribute is absent) and the remaining attributes as an association list in
  insertion order, as a Python dictionary does.
\<close>

record tag =
  name :: string
  cls :: "string list option"
  attrs :: "(string \<times> string) list"

section \<open>Colour classes\<close>

definition CSS_COLOR_MAP :: "string \<Rightarrow> string option" where
  "CSS_COLOR_MAP = map_of
     [(''default'', ''black''),
      (''gray'', ''gray''),
      (''brown'', ''saddlebrown''),
      (''orange'', ''orange''),
      (''yellow'', ''gold''),
      (''teal'', ''teal''),
      (''blue'', ''blue''),
      (''purple'', ''purple''),
      (''pink'', ''deeppink''),
      (''red'', ''red'')]"

text \<open>\<open>el.get("style", "")\<close>\<close>

definition get_style :: "tag \<Rightarrow> string" where
  "get_style el = (case map_of (attrs el) ''style'' of None \<Rightarrow> [] | Some s \<Rightarrow> s)"

definition merge_style :: "tag \<Rightarrow> string \<Rightarrow> tag" where
  "merge_style el new_rules =
     (let existing = rstrip_chars '';'' (strip (get_style el))
      in el\<lparr>attrs := AList.update ''style''
              (if existing \<noteq> [] then existing @ '';'' @ new_rules else new_rules)
              (attrs el)\<rparr>)"

text \<open>
  \<open>re.match(r"(?:highlight|block-color)-([a-z_]+)$", cls)\<close>: the token starts with
  \<open>highlight-\<close> or \<open>block-color-\<close>, the key is the longest run of lower-case letters and
  underscores that follows, it is not empty, and it reaches the end of the token (\<open>$\<close>
  also matches before a final newline). The result is group 1, the key.
\<close>

definition is_key_char :: "char \<Rightarrow> bool" where
  "is_key_char c = ((97 \<le> (of_char c :: nat) \<and> (of_char c :: nat) \<le> 122) \<or> c = CHR ''_'')"

definition match_color_class :: "string \<Rightarrow> string option" where
  "match_color_class c =
     (let rest = (if startswith c ''highlight-'' then Some (drop 10 c)
                  else if startswith c ''block-color-'' then Some (drop 12 c)
                  else None)
      in case rest of
           None \<Rightarrow> None
         | Some r \<Rightarrow>
             (let key = takeWhile is_key_char r; tail = dropWhile is_key_char r
              in if key \<noteq> [] \<and> (tail = [] \<or> tail = [CHR 0x0A]) then Some key else None))"

text \<open>
  The body of \<open>for cls in list(classes)\<close>: the loop runs over a copy of the class list,
  while \<open>classes\<close> (the list the element holds) loses the first occurrence of each
  matching token.
\<close>

fun color_loop :: "string list \<Rightarrow> string list \<times> tag \<Rightarrow> string list \<times> tag" where
  "color_loop [] (classes, el) = (classes, el)"
| "color_loop (c # rest) (classes, el) =
     (case match_color_class c of
        None \<Rightarrow> color_loop rest (classes, el)
      | Some key \<Rightarrow>
          color_loop rest
            (remove1 c classes,
             if \<not> endswith key ''_background''
             then (case CSS_COLOR_MAP key of
                     None \<Rightarrow> el
                   | Some col \<Rightarrow> if col \<noteq> [] then merge_style el (''color:'' @ col) else el)
             else el))"

definition convert_color_classes_to_inline :: "tag \<Rightarrow> tag" where
  "convert_color_classes_to_inline el =
     (case cls el of
        None \<Rightarrow> el
      | Some cs \<Rightarrow>
          if cs = [] then el
          else (case color_loop cs (cs, el) of
                  (classes, el') \<Rightarrow>
                    if classes \<noteq> [] then el'\<lparr>cls := Some classes\<rparr> else el'\<lparr>cls := None\<rparr>))"

section \<open>The document tree\<close>

text \<open>
  A node of the parsed document is a string or an element. An element is a Python object:
  the code keeps references to elements while it changes the tree, so every element
  carries the identity of its object (a number, distinct for distinct objects) besides its
  tag and its contents.
\<close>

text \<open>
  The library has several classes of strings. \<open>Text\<close> is the plain
  \<open>NavigableString\<close>; \<open>Special\<close> holds a string of another class: the parser gives
  the strings inside \<open>style\<close>, \<open>script\<close>, \<open>template\<close>, \<open>rt\<close> and \<open>rp\<close> elements
  the classes \<open>Stylesheet\<close>, \<open>Script\<close>, \<open>TemplateString\<close>, \<open>RubyTextString\<close> and
  \<open>RubyParenthesisString\<close>, and it makes comments, CDATA sections, declarations,
  doctypes and processing instructions strings of their own classes. A string keeps its
  class when it is moved.
\<close>

datatype string_class =
  CData | Comment | Declaration | Doctype | ProcessingInstruction
  | Stylesheet | Script | TemplateString | RubyTextString | RubyParenthesisString

datatype node = Text string | Special string_class string | Element nat tag "node list"

fun ident_of :: "node \<Rightarrow> nat" where
  "ident_of (Text s) = 0"
| "ident_of (Special k s) = 0"
| "ident_of (Element i t kids) = i"

fun contents :: "node \<Rightarrow> node list" where
  "contents (Text s) = []"
| "contents (Special k s) = []"
| "contents (Element i t kids) = kids"

fun node_name :: "node \<Rightarrow> string" where
  "node_name (Text s) = []"
| "node_name (Special k s) = []"
| "node_name (Element i t kids) = name t"

text \<open>The strings below a node, in document order.\<close>

fun strings_of :: "node \<Rightarrow> string list" where
  "strings_of (Text s) = [s]"
| "strings_of (Special k s) = [s]"
| "strings_of (Element i t kids) = concat (map strings_of kids)"

fun join :: "string \<Rightarrow> string list \<Rightarrow> string" where
  "join sep [] = []"
| "join sep [x] = x"
| "join sep (x # y # ys) = x @ sep @ join sep (y # ys)"

text \<open>The strings below a node with their classes (\<open>None\<close> for a plain string).\<close>

fun typed_strings :: "node \<Rightarrow> (string_class option \<times> string) list" where
  "typed_strings (Text s) = [(None, s)]"
| "typed_strings (Special k s) = [(Some k, s)]"
| "typed_strings (Element i t kids) = concat (map typed_strings kids)"

text \<open>
  The classes of strings that \<open>get_text\<close> of an element with the given name takes:
  plain strings and CDATA sections, except for the elements whose strings have a class of
  their own.
\<close>

definition interesting_string_types :: "string \<Rightarrow> string_class option list" where
  "interesting_string_types nm =
     (if nm = ''rt'' then [Some RubyTextString]
      else if nm = ''rp'' then [Some RubyParenthesisString]
      else if nm = ''style'' then [Some Stylesheet]
      else if nm = ''script'' then [Some Script]
      else if nm = ''template'' then [Some TemplateString]
      else [None, Some CData])"

text \<open>
  \<open>node.get_text(sep, strip=True)\<close>: every string below the node that has one of the
  node's interesting classes is stripped, the empty ones are dropped, and the rest is
  joined with the separator. Strings of the other classes (a comment, the text of a
  \<open>style\<close> or \<open>script\<close> element inside a cell) are left out.
\<close>

definition get_text :: "string \<Rightarrow> node \<Rightarrow> string" where
  "get_text sep n =
     join sep (filter (\<lambda>s. s \<noteq> [])
       (map (\<lambda>p. strip (snd p))
          (filter (\<lambda>p. fst p \<in> set (interesting_string_types (node_name n)))
             (typed_strings n))))"

section \<open>Tags\<close>

text \<open>
  \<open>re.split(r"[,;\n]+", raw)\<close>: the pieces of \<open>raw\<close> between the maximal runs of
  separator characters; a run at the start or at the end leaves an empty piece there.
\<close>

definition is_tag_sep :: "char \<Rightarrow> bool" where
  "is_tag_sep c = (c = CHR '','' \<or> c = CHR '';'' \<or> c = CHR 0x0A)"

function split_runs :: "(char \<Rightarrow> bool) \<Rightarrow> string \<Rightarrow> string \<Rightarrow> string list" where
  "split_runs p cur [] = [rev cur]"
| "split_runs p cur (c # cs) =
     (if p c then rev cur # split_runs p [] (dropWhile p cs)
      else split_runs p (c # cur) cs)"
  by pat_completeness auto
termination
  by (relation "measure (\<lambda>(p, cur, s). length s)")
     (auto simp: length_dropWhile_le less_Suc_eq_le)

text \<open>\<open>re.sub(r"\s+", "-", tok)\<close>: every maximal run of whitespace becomes one dash.\<close>

function sub_spaces :: "string \<Rightarrow> string" where
  "sub_spaces [] = []"
| "sub_spaces (c # cs) =
     (if py_isspace c then CHR ''-'' # sub_spaces (dropWhile py_isspace cs)
      else c # sub_spaces cs)"
  by pat_completeness auto
termination
  by (relation "measure length") (auto simp: length_dropWhile_le less_Suc_eq_le)

text \<open>The loop \<open>for tok in tokens\<close>, with its list \<open>clean\<close> and its set \<open>seen\<close>.\<close>

fun tags_loop :: "string list \<Rightarrow> string list \<times> string set \<Rightarrow> string list" where
  "tags_loop [] (clean, seen) = clean"
| "tags_loop (tok # rest) (clean, seen) =
     (let tok' = strip_chars '',;'' (sub_spaces (strip tok))
      in if tok' \<noteq> [] \<and> tok' \<notin> seen
         then tags_loop rest (clean @ [tok'], insert tok' seen)
         else tags_loop rest (clean, seen))"

definition tags_from_cell :: "node \<Rightarrow> string" where
  "tags_from_cell cell =
     (let raw = get_text '' '' cell;
          tokens = map strip (filter (\<lambda>t. strip t \<noteq> []) (split_runs is_tag_sep [] raw))
      in join '' '' (tags_loop tokens ([], {})))"

text \<open>
  The tag extractor in the specification's words: split the visible text on the runs of
  comma, semicolon and newline, trim each piece and drop the blank ones, put one dash for
  each run of whitespace inside a piece, keep the first occurrence of each result, and
  join with single spaces.
\<close>

primrec first_seen :: "'a list \<Rightarrow> 'a list" where
  "first_seen [] = []"
| "first_seen (x # xs) = x # filter (\<lambda>y. y \<noteq> x) (first_seen xs)"

definition tags_spec :: "string \<Rightarrow> string" where
  "tags_spec raw =
     join '' ''
       (first_seen (map (\<lambda>t. sub_spaces (strip t))
          (filter (\<lambda>t. strip t \<noteq> []) (split_runs is_tag_sep [] raw))))"

section \<open>Searching the tree\<close>

text \<open>
  \<open>node.find_all(name)\<close> lists the elements below a node (the node itself excluded) that
  have the name, in document order; \<open>node.find(name)\<close> is the first of them, or \<open>None\<close>.
\<close>

fun all_tags :: "node \<Rightarrow> node list" where
  "all_tags (Text s) = []"
| "all_tags (Special k s) = []"
| "all_tags (Element i t kids) = Element i t kids # concat (map all_tags kids)"

definition descendants :: "node \<Rightarrow> node list" where
  "descendants n = concat (map all_tags (contents n))"

definition find_all :: "string \<Rightarrow> node \<Rightarrow> node list" where
  "find_all nm n = filter (\<lambda>d. node_name d = nm) (descendants n)"

definition find :: "string \<Rightarrow> node \<Rightarrow> node option" where
  "find nm n = (case find_all nm n of [] \<Rightarrow> None | d # _ \<Rightarrow> Some d)"

section \<open>The table and its column map\<close>

datatype error = FileNotFoundError | AttributeError | KeyError string | IndexError | OSError

text \<open>\<open>str.lower()\<close> on code points below 256.\<close>

definition lower_char :: "char \<Rightarrow> char" where
  "lower_char c =
     (let n = (of_char c :: nat)
      in if (65 \<le> n \<and> n \<le> 90) \<or> (192 \<le> n \<and> n \<le> 222 \<and> n \<noteq> 215)
         then char_of (n + 32) else c)"

definition lower :: "string \<Rightarrow> string" where
  "lower s = map lower_char s"

text \<open>\<open>sub in s\<close>\<close>

fun contains :: "string \<Rightarrow> string \<Rightarrow> bool" where
  "contains [] sub = (sub = [])"
| "contains (c # cs) sub = (startswith (c # cs) sub \<or> contains cs sub)"

text \<open>The loop \<open>for idx, name in enumerate(headers)\<close>, from index \<open>idx\<close> on.\<close>

fun col_loop :: "nat \<Rightarrow> string list \<Rightarrow> (string \<rightharpoonup> nat) \<Rightarrow> (string \<rightharpoonup> nat)" where
  "col_loop idx [] col_map = col_map"
| "col_loop idx (nm # rest) col_map =
     col_loop (Suc idx) rest
       (if contains nm ''notion-id'' then col_map(''id'' \<mapsto> idx)
        else if ''front'' = nm then col_map(''front'' \<mapsto> idx)
        else if ''back'' = nm then col_map(''back'' \<mapsto> idx)
        else if contains nm ''tags'' then col_map(''tags'' \<mapsto> idx)
        else col_map)"

definition headers_of :: "node \<Rightarrow> string list" where
  "headers_of thead = map (\<lambda>th. lower (get_text [] th)) (find_all ''th'' thead)"

definition parse_table :: "node \<Rightarrow> error + (node \<times> (string \<rightharpoonup> nat))" where
  "parse_table soup =
     (case find ''table'' soup of
        None \<Rightarrow> Inl AttributeError
      | Some table \<Rightarrow>
          (case find ''thead'' table of
             None \<Rightarrow> Inl AttributeError
           | Some thead \<Rightarrow> Inr (table, col_loop 0 (headers_of thead) Map.empty)))"

text \<open>
  The field a single header names, in the specification's words: the first rule that the
  header satisfies, among contains \<open>notion-id\<close>, equals \<open>front\<close>, equals \<open>back\<close>, contains
  \<open>tags\<close>, in this order; none when it satisfies no rule.
\<close>

definition header_field :: "string \<Rightarrow> string option" where
  "header_field nm =
     (if contains nm ''notion-id'' then Some ''id''
      else if nm = ''front'' then Some ''front''
      else if nm = ''back'' then Some ''back''
      else if contains nm ''tags'' then Some ''tags''
      else None)"

section \<open>The inline sanitizer\<close>

definition ALLOWED_TAGS :: "string set" where
  "ALLOWED_TAGS =
     {''strong'', ''b'', ''em'', ''i'', ''u'',
      ''code'', ''pre'', ''span'', ''br'',
      ''ul'', ''ol'', ''li'', ''a'', ''div''}"

text \<open>
  A loop \<open>for el in cell.find_all(...)\<close> whose body changes only the name and the
  attributes of \<open>el\<close> visits every element below the cell once: it applies a function to
  every tag of the cell's contents.
\<close>

fun map_tags :: "(tag \<Rightarrow> tag) \<Rightarrow> node \<Rightarrow> node" where
  "map_tags f (Text s) = Text s"
| "map_tags f (Special k s) = Special k s"
| "map_tags f (Element i t kids) = Element i (f t) (map (map_tags f) kids)"

text \<open>The body of the loop over \<open>cell.find_all("mark")\<close>.\<close>

definition rename_mark :: "tag \<Rightarrow> tag" where
  "rename_mark t =
     (if name t = ''mark'' then convert_color_classes_to_inline (t\<lparr>name := ''span''\<rparr>) else t)"

text \<open>The body of the loop over \<open>cell.find_all("span")\<close>.\<close>

definition color_span :: "tag \<Rightarrow> tag" where
  "color_span t = (if name t = ''span'' then convert_color_classes_to_inline t else t)"

text \<open>
  The body of the loop over \<open>cell.find_all("a")\<close>: \<open>a.attrs\<close> becomes a new dictionary,
  with the \<open>href\<close> when \<open>a.get("href")\<close> is a non-empty string and empty otherwise.
\<close>

definition clean_link :: "tag \<Rightarrow> tag" where
  "clean_link t =
     (if name t = ''a''
      then (case map_of (attrs t) ''href'' of
              None \<Rightarrow> t\<lparr>cls := None, attrs := []\<rparr>
            | Some href \<Rightarrow>
                if href \<noteq> [] then t\<lparr>cls := None, attrs := [(''href'', href)]\<rparr>
                else t\<lparr>cls := None, attrs := []\<rparr>)
      else t)"

text \<open>
  The loop \<open>for tag in list(cell.find_all(True)): if tag.name not in ALLOWED_TAGS:
  tag.unwrap()\<close>. \<open>unwrap\<close> puts the contents of the tag at the tag's place in its parent;
  the loop does so for every element with a name that is not allowed, in document order,
  so a node becomes the list of nodes that stands at its place afterwards.
\<close>

fun unwrap_disallowed :: "node \<Rightarrow> node list" where
  "unwrap_disallowed (Text s) = [Text s]"
| "unwrap_disallowed (Special k s) = [Special k s]"
| "unwrap_disallowed (Element i t kids) =
     (if name t \<notin> ALLOWED_TAGS then concat (map unwrap_disallowed kids)
      else [Element i t (concat (map unwrap_disallowed kids))])"

text \<open>\<open>s.split(";")\<close>\<close>

fun split_on :: "char \<Rightarrow> string \<Rightarrow> string list" where
  "split_on sep [] = [[]]"
| "split_on sep (c # cs) =
     (if c = sep then [] # split_on sep cs
      else (case split_on sep cs of [] \<Rightarrow> [[c]] | p # ps \<Rightarrow> (c # p) # ps))"

definition style_without_background :: "string \<Rightarrow> string" where
  "style_without_background st =
     (let styles = filter (\<lambda>s. \<not> startswith (strip s) ''background-color'')
                     (split_on CHR '';'' st)
      in join '';'' (filter (\<lambda>s. strip s \<noteq> []) styles))"

definition strip_background :: "tag \<Rightarrow> tag" where
  "strip_background el =
     (case map_of (attrs el) ''style'' of
        None \<Rightarrow> el
      | Some st \<Rightarrow> el\<lparr>attrs := AList.update ''style'' (style_without_background st) (attrs el)\<rparr>)"

text \<open>The cell as the sanitizer leaves it in the tree (rich mode changes it in place).\<close>

definition sanitize_contents :: "node list \<Rightarrow> node list" where
  "sanitize_contents kids =
     map (map_tags strip_background)
       (concat (map unwrap_disallowed
          (map (map_tags clean_link)
             (map (map_tags color_span)
                (map (map_tags rename_mark) kids)))))"

fun sanitize_tree :: "node \<Rightarrow> node" where
  "sanitize_tree (Text s) = Text s"
| "sanitize_tree (Special k s) = Special k s"
| "sanitize_tree (Element i t kids) = Element i t (sanitize_contents kids)"

subsection \<open>Serialization\<close>

text \<open>
  \<open>decode_contents()\<close> with the library's default formatter: \<open>&\<close>, \<open><\<close> and \<open>>\<close> are
  written as entities in strings and in attribute values; attributes are written in the
  order of their names, the class list joined with spaces; a value is put in double
  quotes, or in single quotes when it has a double quote and no single quote, and when it
  has both its double quotes become \<open>&quot;\<close>; a void element without contents is
  written \<open><name/>\<close>.
\<close>

definition escape :: "string \<Rightarrow> string" where
  "escape s = concat (map (\<lambda>c. if c = CHR ''&'' then ''&amp;''
                               else if c = CHR ''<'' then ''&lt;''
                               else if c = CHR ''>'' then ''&gt;''
                               else [c]) s)"

definition quoted_attribute_value :: "string \<Rightarrow> string" where
  "quoted_attribute_value v =
     (if CHR 0x22 \<in> set v
      then (if CHR 0x27 \<in> set v
            then [CHR 0x22] @ concat (map (\<lambda>c. if c = CHR 0x22 then ''&quot;'' else [c]) v)
                 @ [CHR 0x22]
            else [CHR 0x27] @ v @ [CHR 0x27])
      else [CHR 0x22] @ v @ [CHR 0x22])"

fun str_le :: "string \<Rightarrow> string \<Rightarrow> bool" where
  "str_le [] ys = True"
| "str_le (x # xs) [] = False"
| "str_le (x # xs) (y # ys) =
     ((of_char x :: nat) < of_char y \<or> (x = y \<and> str_le xs ys))"

fun insert_attr :: "string \<times> string \<Rightarrow> (string \<times> string) list \<Rightarrow> (string \<times> string) list" where
  "insert_attr a [] = [a]"
| "insert_attr a (b # bs) = (if str_le (fst a) (fst b) then a # b # bs else b # insert_attr a bs)"

definition sorted_attrs :: "(string \<times> string) list \<Rightarrow> (string \<times> string) list" where
  "sorted_attrs as = foldr insert_attr as []"

definition attribute_string :: "tag \<Rightarrow> string" where
  "attribute_string t =
     concat (map (\<lambda>(k, v). '' '' @ k @ ''='' @ quoted_attribute_value (escape v))
       (sorted_attrs
          ((case cls t of None \<Rightarrow> [] | Some cs \<Rightarrow> [(''class'', join '' '' cs)]) @ attrs t)))"

definition void_elements :: "string set" where
  "void_elements =
     {''area'', ''base'', ''br'', ''col'', ''embed'', ''hr'', ''img'', ''input'', ''keygen'',
      ''link'', ''menuitem'', ''meta'', ''param'', ''source'', ''track'', ''wbr'',
      ''basefont'', ''bgsound'', ''command'', ''frame'', ''image'', ''isindex'', ''nextid'',
      ''spacer''}"

text \<open>
  A string of a preformatted class is written between the marks of its class, as it is;
  a string of another class is written with entities, unless it is the child of a
  \<open>script\<close> or \<open>style\<close> element, where it is written as it is.
\<close>

fun special_output :: "string_class \<Rightarrow> string \<Rightarrow> string" where
  "special_output CData s = ''<![CDATA['' @ s @ '']]>''"
| "special_output Comment s = ''<!--'' @ s @ ''-->''"
| "special_output Declaration s = ''<?'' @ s @ ''?>''"
| "special_output Doctype s = ''<!DOCTYPE '' @ s @ ''>'' @ [CHR 0x0A]"
| "special_output ProcessingInstruction s = ''<?'' @ s @ ''>''"
| "special_output k s = escape s"

definition preformatted :: "string_class \<Rightarrow> bool" where
  "preformatted k =
     (k = CData \<or> k = Comment \<or> k = Declaration \<or> k = Doctype \<or> k = ProcessingInstruction)"

fun raw_string :: "node \<Rightarrow> string option" where
  "raw_string (Text s) = Some s"
| "raw_string (Special k s) = (if preformatted k then None else Some s)"
| "raw_string (Element i t kids) = None"

definition cdata_containing_tags :: "string set" where
  "cdata_containing_tags = {''script'', ''style''}"

fun decode :: "node \<Rightarrow> string" where
  "decode (Text s) = escape s"
| "decode (Special k s) = special_output k s"
| "decode (Element i t kids) =
     (if kids = [] \<and> name t \<in> void_elements
      then ''<'' @ name t @ attribute_string t @ ''/>''
      else ''<'' @ name t @ attribute_string t @ ''>''
           @ concat (map (\<lambda>k. case (if name t \<in> cdata_containing_tags then raw_string k
                                       else None) of
                                  Some s \<Rightarrow> s
                                | None \<Rightarrow> decode k) kids)
           @ ''</'' @ name t @ ''>'')"

definition decode_contents :: "node \<Rightarrow> string" where
  "decode_contents n = concat (map decode (contents n))"

subsection \<open>Fenced code blocks\<close>

text \<open>
  \<open>s.replace(old, new)\<close> for a non-empty \<open>old\<close>: the occurrences of \<open>old\<close> are replaced
  from left to right, without overlap.
\<close>

function replace :: "string \<Rightarrow> string \<Rightarrow> string \<Rightarrow> string" where
  "replace old new [] = []"
| "replace old new (c # cs) =
     (if old \<noteq> [] \<and> startswith (c # cs) old
      then new @ replace old new (drop (length old - 1) cs)
      else c # replace old new cs)"
  by pat_completeness auto
termination
  by (relation "measure (\<lambda>(old, new, s). length s)") auto

text \<open>The first occurrence of three backticks: the text before it and the text after it.\<close>

fun find_fence :: "string \<Rightarrow> (string \<times> string) option" where
  "find_fence [] = None"
| "find_fence (c # cs) =
     (if startswith (c # cs) ''```'' then Some ([], drop 2 cs)
      else map_option (\<lambda>(a, b). (c # a, b)) (find_fence cs))"

lemma find_fence_length: "find_fence s = Some (a, b) \<Longrightarrow> length b < length s"
  by (induction s arbitrary: a b) (auto split: if_splits)

text \<open>
  \<open>re.sub(r"```(.*?)```", f, s, flags=re.DOTALL)\<close>: the first fence opens a region, the
  next fence after it closes the region (the match is not greedy, and with \<open>DOTALL\<close> it
  runs over newlines), the region is replaced by \<open>f\<close> of the text between the two fences,
  and the search goes on after the closing fence. A fence with no fence after it stays.
\<close>

function fence_sub :: "(string \<Rightarrow> string) \<Rightarrow> string \<Rightarrow> string" where
  "fence_sub f s =
     (case find_fence s of
        None \<Rightarrow> s
      | Some (before, rest) \<Rightarrow>
          (case find_fence rest of
             None \<Rightarrow> s
           | Some (inner, after) \<Rightarrow> before @ f inner @ fence_sub f after))"
  by pat_completeness auto
termination
proof (relation "measure (\<lambda>(f, s). length s)")
  show "wf (measure (\<lambda>(f, s). length s))" by simp
next
  fix f :: "string \<Rightarrow> string" and s x2 x y x2a xa ya
  assume "find_fence s = Some x2" "(x, y) = x2" "find_fence y = Some x2a" "(xa, ya) = x2a"
  then have "length ya < length y" "length y < length s"
    using find_fence_length [of y xa ya] find_fence_length [of s x y] by auto
  then show "((f, ya), (f, s)) \<in> measure (\<lambda>(f, s). length s)" by simp
qed

text \<open>
  \<open>fence_replacer\<close>. The text between the fences is parsed again; \<open>parse\<close> stands for the
  HTML parser of the library, \<open>BeautifulSoup(inner, "html.parser")\<close>, which returns the
  root of the parsed tree.
\<close>

definition monospace_div_open :: string where
  "monospace_div_open =
     ''<div style='' @ [CHR 0x22] @ ''font-family:Menlo,Consolas,'' @ [CHR 0x27]
       @ ''Courier New'' @ [CHR 0x27] @ '',monospace; white-space:pre'' @ [CHR 0x22] @ ''>''"

definition fence_replacer :: "(string \<Rightarrow> node) \<Rightarrow> string \<Rightarrow> string" where
  "fence_replacer parse inner =
     monospace_div_open
     @ concat (map decode (map (map_tags strip_background) (contents (parse inner))))
     @ ''</div>''"

definition sanitize_inline_html :: "(string \<Rightarrow> node) \<Rightarrow> node \<Rightarrow> bool \<Rightarrow> string" where
  "sanitize_inline_html parse cell strip_all =
     (if strip_all then get_text '' '' cell
      else
        (let html_str = replace ''<br />'' ''<br/>''
                          (replace ''<br>'' ''<br/>'' (decode_contents (sanitize_tree cell)));
             tmp = replace ''<br/>'' [CHR 0x0A] html_str;
             tmp = fence_sub (fence_replacer parse) tmp;
             tmp = replace [CHR 0x0A] ''<br/>'' tmp
         in tmp))"

text \<open>The tags below a node and the node's own, in document order (used to state properties).\<close>

fun tags_of :: "node \<Rightarrow> tag list" where
  "tags_of (Text s) = []"
| "tags_of (Special k s) = []"
| "tags_of (Element i t kids) = t # concat (map tags_of kids)"

definition tags_below :: "node \<Rightarrow> tag list" where
  "tags_below n = concat (map tags_of (contents n))"


section \<open>Converting a file\<close>

subsection \<open>References into a tree that changes\<close>

text \<open>
  \<open>convert_file\<close> lists the rows of the table body once, before its loop, and the cells of
  a row at the start of the row's turn; both lists hold references to elements. Sanitizing
  the answer cell in rich mode changes the tree in place, so what a reference shows later
  is the element as the tree has it by then. The model keeps the table as a value, passes
  it from one turn of the loop to the next, and reads a reference through the element's
  identity. An element that has been unwrapped is no longer in the tree, and its contents
  have moved to its former parent: such a reference shows an element without contents.
\<close>

definition find_ident :: "nat \<Rightarrow> node \<Rightarrow> node option" where
  "find_ident i tree = List.find (\<lambda>d. ident_of d = i) (all_tags tree)"

definition deref :: "node \<Rightarrow> nat \<Rightarrow> node" where
  "deref tree i =
     (case find_ident i tree of
        Some n \<Rightarrow> n
      | None \<Rightarrow> Element i \<lparr>name = [], cls = None, attrs = []\<rparr> [])"

fun update_ident :: "nat \<Rightarrow> (node \<Rightarrow> node) \<Rightarrow> node \<Rightarrow> node" where
  "update_ident i f (Text s) = Text s"
| "update_ident i f (Special k s) = Special k s"
| "update_ident i f (Element j t kids) =
     (if i = j then f (Element j t kids) else Element j t (map (update_ident i f) kids))"

text \<open>Distinct elements of a tree are distinct objects.\<close>

definition distinct_idents :: "node \<Rightarrow> bool" where
  "distinct_idents tree = distinct (map ident_of (all_tags tree))"

subsection \<open>Rows\<close>

record row =
  Notion_ID :: string
  Front :: string
  Back :: string
  Tags :: string

text \<open>\<open>tds[col_map[key]]\<close>: the key may be missing, and the row may be too short.\<close>

definition cell_at :: "(string \<rightharpoonup> nat) \<Rightarrow> string \<Rightarrow> node list \<Rightarrow> error + node" where
  "cell_at col_map key tds =
     (case col_map key of
        None \<Rightarrow> Inl (KeyError key)
      | Some idx \<Rightarrow> if idx < length tds then Inr (tds ! idx) else Inl IndexError)"

text \<open>
  One turn of the loop \<open>for tr in ...\<close>, for the row with identity \<open>tr\<close>: the table as
  the turn leaves it, and the row it appends to \<open>rows_out\<close> (none when the row has no
  cells and the turn goes on to the next row).
\<close>

definition convert_row ::
  "(string \<Rightarrow> node) \<Rightarrow> (string \<rightharpoonup> nat) \<Rightarrow> node \<Rightarrow> nat \<Rightarrow> error + (node \<times> row option)" where
  "convert_row parse col_map table tr =
     (let tds = find_all ''td'' (deref table tr)
      in if tds = [] then Inr (table, None)
         else
           (case cell_at col_map ''id'' tds of
              Inl e \<Rightarrow> Inl e
            | Inr id_cell \<Rightarrow>
                (case cell_at col_map ''front'' tds of
                   Inl e \<Rightarrow> Inl e
                 | Inr front_cell \<Rightarrow>
                     (case cell_at col_map ''back'' tds of
                        Inl e \<Rightarrow> Inl e
                      | Inr back_cell \<Rightarrow>
                          (let back_html = sanitize_inline_html parse back_cell False;
                               table' = update_ident (ident_of back_cell) sanitize_tree table
                           in if ''tags'' \<in> dom col_map
                              then (case cell_at col_map ''tags'' tds of
                                      Inl e \<Rightarrow> Inl e
                                    | Inr tags_cell \<Rightarrow>
                                        Inr (table',
                                             Some \<lparr>Notion_ID = get_text [] id_cell,
                                                   Front = sanitize_inline_html parse front_cell True,
                                                   Back = back_html,
                                                   Tags = tags_from_cell
                                                            (deref table' (ident_of tags_cell))\<rparr>))
                              else Inr (table',
                                        Some \<lparr>Notion_ID = get_text [] id_cell,
                                              Front = sanitize_inline_html parse front_cell True,
                                              Back = back_html,
                                              Tags = []\<rparr>))))))"

fun row_loop ::
  "(string \<Rightarrow> node) \<Rightarrow> (string \<rightharpoonup> nat) \<Rightarrow> nat list \<Rightarrow> node \<times> row list \<Rightarrow> error + (node \<times> row list)" where
  "row_loop parse col_map [] (table, rows_out) = Inr (table, rows_out)"
| "row_loop parse col_map (tr # trs) (table, rows_out) =
     (case convert_row parse col_map table tr of
        Inl e \<Rightarrow> Inl e
      | Inr (table', None) \<Rightarrow> row_loop parse col_map trs (table', rows_out)
      | Inr (table', Some r) \<Rightarrow> row_loop parse col_map trs (table', rows_out @ [r]))"

subsection \<open>The CSV file\<close>

text \<open>
  \<open>csv.DictWriter\<close> with the default dialect: fields are separated by commas, a record
  ends with \<open>\r\n\<close>, and a field that has a comma, a double quote, a carriage return or a
  newline is put in double quotes with its double quotes doubled.
\<close>

definition csv_field :: "string \<Rightarrow> string" where
  "csv_field s =
     (if list_ex (\<lambda>c. c = CHR '','' \<or> c = CHR 0x22 \<or> c = CHR 0x0D \<or> c = CHR 0x0A) s
      then [CHR 0x22] @ concat (map (\<lambda>c. if c = CHR 0x22 then [CHR 0x22, CHR 0x22] else [c]) s)
           @ [CHR 0x22]
      else s)"

definition csv_record :: "string list \<Rightarrow> string" where
  "csv_record cells = join '','' (map csv_field cells) @ [CHR 0x0D, CHR 0x0A]"

definition csv_text :: "row list \<Rightarrow> string" where
  "csv_text rows_out =
     csv_record [''Notion-ID'', ''Front'', ''Back'', ''Tags'']
     @ concat (map (\<lambda>r. csv_record [Notion_ID r, Front r, Back r, Tags r]) rows_out)"

subsection \<open>convert_file\<close>

text \<open>
  The files are a map from paths to texts. What the system does when the output file is
  opened for writing and written is given for each path: the directory of the path is
  missing, and \<open>open\<close> raises \<open>FileNotFoundError\<close>; or the file cannot be opened for
  another reason (no permission, the path is a directory), and \<open>open\<close> raises another
  \<open>OSError\<close>; or the file is opened, which creates it or empties it, and takes a number
  of characters. A text that fits is written whole; of a longer text the file keeps what
  fits and the write fails.
\<close>

datatype medium = Missing_Directory | Cannot_Open | Room nat

definition write_file ::
  "(string \<Rightarrow> medium) \<Rightarrow> (string \<rightharpoonup> string) \<Rightarrow> string \<Rightarrow> string
     \<Rightarrow> (error + unit) \<times> (string \<rightharpoonup> string)" where
  "write_file env files path text =
     (case env path of
        Missing_Directory \<Rightarrow> (Inl FileNotFoundError, files)
      | Cannot_Open \<Rightarrow> (Inl OSError, files)
      | Room n \<Rightarrow>
          if length text \<le> n then (Inr (), files(path \<mapsto> text))
          else (Inl OSError, files(path \<mapsto> take n text)))"

text \<open>
  The function reads the input file, parses it, runs the loop over the rows, and only
  then opens the output file and writes the header and the rows. \<open>parse\<close> is the
  library's HTML parser, \<open>BeautifulSoup(html, "html.parser")\<close>.
\<close>

definition convert_file ::
  "(string \<Rightarrow> node) \<Rightarrow> (string \<Rightarrow> medium) \<Rightarrow> (string \<rightharpoonup> string) \<Rightarrow> string \<Rightarrow> string
     \<Rightarrow> (error + unit) \<times> (string \<rightharpoonup> string)" where
  "convert_file parse env files input_path output_path =
     (case files input_path of
        None \<Rightarrow> (Inl FileNotFoundError, files)
      | Some html \<Rightarrow>
          (case parse_table (parse html) of
             Inl e \<Rightarrow> (Inl e, files)
           | Inr (table, col_map) \<Rightarrow>
               (case find ''tbody'' table of
                  None \<Rightarrow> (Inl AttributeError, files)
                | Some tbody \<Rightarrow>
                    (case row_loop parse col_map (map ident_of (find_all ''tr'' tbody)) (table, []) of
                       Inl e \<Rightarrow> (Inl e, files)
                     | Inr (table', rows_out) \<Rightarrow>
                         write_file env files output_path (csv_text rows_out)))))"

section \<open>Example documents\<close>

definition elem :: "nat \<Rightarrow> string \<Rightarrow> node list \<Rightarrow> node" where
  "elem i nm kids = Element i \<lparr>name = nm, cls = None, attrs = []\<rparr> kids"

text \<open>A table with the headers Question and Back and one body row without cells.\<close>

definition table_without_front :: node where
  "table_without_front =
     elem 1 ''table''
       [elem 2 ''thead'' [elem 3 ''tr'' [elem 4 ''th'' [Text ''Question''], elem 5 ''th'' [Text ''Back'']]],
        elem 6 ''tbody'' [elem 7 ''tr'' []]]"

text \<open>A table with the single header Answer and an empty body.\<close>

definition table_with_empty_body :: node where
  "table_with_empty_body =
     elem 1 ''table''
       [elem 2 ''thead'' [elem 3 ''tr'' [elem 4 ''th'' [Text ''Answer'']]],
        elem 5 ''tbody'' []]"

text \<open>A table with the headers Notion-ID and Back and one body row with two cells.\<close>

definition table_without_front_with_row :: node where
  "table_without_front_with_row =
     elem 1 ''table''
       [elem 2 ''thead'' [elem 3 ''tr'' [elem 4 ''th'' [Text ''Notion-ID''], elem 5 ''th'' [Text ''Back'']]],
        elem 6 ''tbody'' [elem 7 ''tr'' [elem 8 ''td'' [Text ''n1''], elem 9 ''td'' [Text ''a1'']]]]"




text \<open>
  A table with the single header Answer and two body rows without cells: an empty row and a
  row that holds a header cell.
\<close>

definition table_with_blank_rows :: node where
  "table_with_blank_rows =
     elem 1 ''table''
       [elem 2 ''thead'' [elem 3 ''tr'' [elem 4 ''th'' [Text ''Answer'']]],
        elem 5 ''tbody'' [elem 6 ''tr'' [], elem 7 ''tr'' [elem 8 ''th'' [Text ''x'']]]]"


definition document :: "node \<Rightarrow> node" where
  "document table = elem 0 ''[document]'' [table]"

section \<open>Properties of the colour-class normalizer\<close>

lemma merge_style_cls: "cls (merge_style el r) = cls el"
  by (simp add: merge_style_def Let_def)

lemma merge_style_name: "name (merge_style el r) = name el"
  by (simp add: merge_style_def Let_def)

lemma color_loop_classes:
  "fst (color_loop todo (filter (\<lambda>c. match_color_class c = None) pre @ todo, el)) =
     filter (\<lambda>c. match_color_class c = None) (pre @ todo)"
proof (induction todo arbitrary: pre el)
  case Nil
  show ?case by simp
next
  case (Cons c rest)
  show ?case
  proof (cases "match_color_class c")
    case None
    with Cons.IH [of "pre @ [c]" el] show ?thesis by simp
  next
    case (Some key)
    let ?keep = "filter (\<lambda>c. match_color_class c = None) pre"
    have "c \<notin> set ?keep" using Some by simp
    then have "remove1 c (?keep @ c # rest) = ?keep @ remove1 c (c # rest)"
      by (simp only: remove1_append if_False)
    then have "remove1 c (?keep @ c # rest) = ?keep @ rest"
      by simp
    with Some Cons.IH [of pre] show ?thesis by simp
  qed
qed

lemma color_loop_no_match:
  "\<forall>c \<in> set todo. match_color_class c = None \<Longrightarrow> color_loop todo (classes, el) = (classes, el)"
  by (induction todo) auto

lemma color_loop_cls: "cls (snd (color_loop todo (classes, el))) = cls el"
  by (induction todo arbitrary: classes el)
     (auto simp: merge_style_cls split: option.splits)


lemma CSS_COLOR_MAP_known:
  "CSS_COLOR_MAP key = Some col \<Longrightarrow> \<not> endswith key ''_background'' \<and> col \<noteq> []"
  by (auto simp: CSS_COLOR_MAP_def endswith_def startswith_def split: if_splits)

lemma color_loop_fst:
  "fst (color_loop cs (cs, el)) = filter (\<lambda>c. match_color_class c = None) cs"
  using color_loop_classes [of cs "[]" el] by simp

lemma color_loop_snd:
  "snd (color_loop todo (classes, el)) =
     fold (\<lambda>col e. merge_style e (''color:'' @ col))
       (List.map_filter (\<lambda>t. Option.bind (match_color_class t) CSS_COLOR_MAP) todo) el"
proof (induction todo arbitrary: classes el)
  case Nil
  show ?case by (simp add: List.map_filter_simps)
next
  case (Cons c rest)
  show ?case
  proof (cases "match_color_class c")
    case None
    then show ?thesis by (simp add: Cons.IH List.map_filter_simps)
  next
    case (Some key)
    show ?thesis
    proof (cases "CSS_COLOR_MAP key")
      case None
      with Some show ?thesis by (simp add: Cons.IH List.map_filter_simps)
    next
      case (Some col)
      with CSS_COLOR_MAP_known [OF Some] \<open>match_color_class c = Some key\<close>
      show ?thesis by (simp add: Cons.IH List.map_filter_simps)
    qed
  qed
qed

lemma convert_no_match:
  assumes "cls el = Some cs" "\<forall>c \<in> set cs. match_color_class c = None"
  shows "convert_color_classes_to_inline el = el"
  using assms by (simp add: convert_color_classes_to_inline_def color_loop_no_match)

lemma convert_cls:
  assumes "cls el = Some cs" "cs \<noteq> []"
  shows "cls (convert_color_classes_to_inline el) =
    (let keep = filter (\<lambda>c. match_color_class c = None) cs in if keep = [] then None else Some keep)"
proof -
  obtain classes el' where l: "color_loop cs (cs, el) = (classes, el')"
    by (cases "color_loop cs (cs, el)")
  with color_loop_fst [of cs el] have "classes = filter (\<lambda>c. match_color_class c = None) cs" by simp
  with assms l show ?thesis
    by (simp add: convert_color_classes_to_inline_def Let_def)
qed

lemma convert_attrs:
  "attrs (convert_color_classes_to_inline el) =
     attrs (fold (\<lambda>col e. merge_style e (''color:'' @ col))
       (List.map_filter (\<lambda>t. Option.bind (match_color_class t) CSS_COLOR_MAP)
          (case cls el of None \<Rightarrow> [] | Some cs \<Rightarrow> cs)) el)"
proof (cases "cls el")
  case None
  then show ?thesis by (simp add: convert_color_classes_to_inline_def List.map_filter_simps)
next
  case (Some cs)
  obtain classes el' where l: "color_loop cs (cs, el) = (classes, el')"
    by (cases "color_loop cs (cs, el)")
  with color_loop_snd [of cs cs el] have "el' = fold (\<lambda>col e. merge_style e (''color:'' @ col))
       (List.map_filter (\<lambda>t. Option.bind (match_color_class t) CSS_COLOR_MAP) cs) el" by simp
  with Some l show ?thesis
    by (auto simp add: convert_color_classes_to_inline_def List.map_filter_simps)
qed

text \<open>
  Claim C10. The colour-class normalizer is idempotent: applying
  \<open>convert_color_classes_to_inline\<close> to an element twice gives the same element (name,
  class list and attributes, the style among them) as applying it once, since the first
  application leaves no class token that matches the colour pattern.
\<close>

theorem convert_color_classes_idempotent:
  "convert_color_classes_to_inline (convert_color_classes_to_inline el) =
     convert_color_classes_to_inline el"
proof (cases "cls (convert_color_classes_to_inline el)")
  case None
  then show ?thesis by (simp add: convert_color_classes_to_inline_def [of "convert_color_classes_to_inline el"])
next
  case (Some ks)
  have "\<forall>c \<in> set ks. match_color_class c = None"
  proof (cases "cls el")
    case None
    with Some show ?thesis by (simp add: convert_color_classes_to_inline_def)
  next
    case (Some cs)
    show ?thesis
    proof (cases "cs = []")
      case True
      with Some \<open>cls (convert_color_classes_to_inline el) = Some ks\<close> show ?thesis
        by (simp add: convert_color_classes_to_inline_def)
    next
      case False
      from convert_cls [OF Some False] \<open>cls (convert_color_classes_to_inline el) = Some ks\<close>
      show ?thesis by (auto simp: Let_def split: if_splits)
    qed
  qed
  with Some show ?thesis by (rule convert_no_match)
qed

lemma get_style_merge_style:
  "get_style (merge_style e r) =
     (let existing = rstrip_chars '';'' (strip (get_style e))
      in if existing = [] then r else existing @ '';'' @ r)"
  by (simp add: merge_style_def get_style_def Let_def update_conv')

text \<open>
  Claim C3. Let an element carry a class token \<open>c\<close> that matches
  \<open>highlight-<key>\<close> or \<open>block-color-<key>\<close>. Then after the normalizer:
  \<^item> the class list is the list of the tokens that do not match, in their order, and the
    class attribute is deleted when none is left;
  \<^item> the attributes are those obtained by merging \<open>color:<css-color>\<close> into the style,
    once for each token whose key is a key of the colour map, from left to right; a token
    whose key ends in \<open>_background\<close> or is unknown contributes nothing, so when every
    matching token is of that kind the attributes are unchanged;
  \<^item> merging a rule into a style keeps the existing style (trimmed, without its final
    semicolons), then \<open>;\<close>, then the rule; with no existing style the rule stands alone;
  \<^item> for a single token with a known key the style is the old one with
    \<open>color:<css-color>\<close> appended in that way.
\<close>

theorem color_classes_become_inline_style:
  assumes "cls el = Some cs" and "c \<in> set cs" and "match_color_class c = Some key"
  shows "cls (convert_color_classes_to_inline el) =
           (if filter (\<lambda>t. match_color_class t = None) cs = [] then None
            else Some (filter (\<lambda>t. match_color_class t = None) cs))
       \<and> attrs (convert_color_classes_to_inline el) =
           attrs (fold (\<lambda>col e. merge_style e (''color:'' @ col))
             (List.map_filter (\<lambda>t. Option.bind (match_color_class t) CSS_COLOR_MAP) cs) el)
       \<and> ((\<forall>t \<in> set cs. \<forall>k. match_color_class t = Some k \<longrightarrow>
              endswith k ''_background'' \<or> CSS_COLOR_MAP k = None) \<longrightarrow>
            attrs (convert_color_classes_to_inline el) = attrs el)
       \<and> (\<forall>e r. get_style (merge_style e r) =
            (if rstrip_chars '';'' (strip (get_style e)) = [] then r
             else rstrip_chars '';'' (strip (get_style e)) @ '';'' @ r))
       \<and> (\<forall>col. cs = [c] \<and> CSS_COLOR_MAP key = Some col \<longrightarrow>
            cls (convert_color_classes_to_inline el) = None \<and>
            get_style (convert_color_classes_to_inline el) =
              (if rstrip_chars '';'' (strip (get_style el)) = [] then ''color:'' @ col
               else rstrip_chars '';'' (strip (get_style el)) @ '';color:'' @ col))
       \<and> name (convert_color_classes_to_inline el) = name el"
proof -
  let ?conv = "convert_color_classes_to_inline el"
  let ?cols = "List.map_filter (\<lambda>t. Option.bind (match_color_class t) CSS_COLOR_MAP) cs"
  from assms have ne: "cs \<noteq> []" by auto
  have A: "cls ?conv = (if filter (\<lambda>t. match_color_class t = None) cs = [] then None
            else Some (filter (\<lambda>t. match_color_class t = None) cs))"
    using convert_cls [OF assms(1) ne] by (simp add: Let_def)
  have B: "attrs ?conv = attrs (fold (\<lambda>col e. merge_style e (''color:'' @ col)) ?cols el)"
    using convert_attrs [of el] assms(1) by simp
  have C: "attrs ?conv = attrs el"
    if h: "\<forall>t \<in> set cs. \<forall>k. match_color_class t = Some k \<longrightarrow>
              endswith k ''_background'' \<or> CSS_COLOR_MAP k = None"
  proof -
    have "Option.bind (match_color_class t) CSS_COLOR_MAP = None" if "t \<in> set cs" for t
    proof (cases "match_color_class t")
      case None
      then show ?thesis by simp
    next
      case (Some k)
      with h that have "endswith k ''_background'' \<or> CSS_COLOR_MAP k = None" by auto
      with CSS_COLOR_MAP_known [of k] Some show ?thesis by (cases "CSS_COLOR_MAP k") auto
    qed
    then have "?cols = []"
      by (induction cs) (simp_all add: List.map_filter_simps)
    with B show ?thesis by simp
  qed
  have D: "get_style (merge_style e r) =
            (if rstrip_chars '';'' (strip (get_style e)) = [] then r
             else rstrip_chars '';'' (strip (get_style e)) @ '';'' @ r)" for e r
    by (simp add: get_style_merge_style Let_def)
  have E: "cls ?conv = None \<and> get_style ?conv =
              (if rstrip_chars '';'' (strip (get_style el)) = [] then ''color:'' @ col
               else rstrip_chars '';'' (strip (get_style el)) @ '';color:'' @ col)"
    if h: "cs = [c] \<and> CSS_COLOR_MAP key = Some col" for col
  proof -
    from h assms(3) have "?cols = [col]" by (simp add: List.map_filter_simps)
    with B have "attrs ?conv = attrs (merge_style el (''color:'' @ col))" by simp
    then have "get_style ?conv = get_style (merge_style el (''color:'' @ col))"
      by (simp add: get_style_def)
    with A h assms(3) show ?thesis by (simp add: D)
  qed
  have F: "name ?conv = name el"
  proof -
    have "name (snd (color_loop todo (classes, e))) = name e" for todo classes e
      by (induction todo arbitrary: classes e) (auto simp: merge_style_name split: option.splits)
    from this [of cs cs el] assms(1) ne show ?thesis
      by (auto simp: convert_color_classes_to_inline_def split: prod.splits)
  qed
  from A B C D E F show ?thesis by blast
qed

theorem color_classes_become_inline_style_witness:
  "cls (convert_color_classes_to_inline
      \<lparr>name = ''span'', cls = Some [''highlight-red'', ''note'', ''block-color-blue_background''],
       attrs = [(''style'', ''font-weight:bold;'')]\<rparr>) = Some [''note'']
   \<and> attrs (convert_color_classes_to_inline
      \<lparr>name = ''span'', cls = Some [''highlight-red'', ''note'', ''block-color-blue_background''],
       attrs = [(''style'', ''font-weight:bold;'')]\<rparr>) = [(''style'', ''font-weight:bold;color:red'')]
   \<and> cls (convert_color_classes_to_inline
      \<lparr>name = ''span'', cls = Some [''block-color-red''], attrs = []\<rparr>) = None
   \<and> get_style (convert_color_classes_to_inline
      \<lparr>name = ''span'', cls = Some [''block-color-red''], attrs = []\<rparr>) = ''color:red''"
proof -
  let ?e = "\<lparr>name = ''span'',
             cls = Some [''highlight-red'', ''note'', ''block-color-blue_background''],
             attrs = [(''style'', ''font-weight:bold;'')]\<rparr>"
  let ?f = "\<lparr>name = ''span'', cls = Some [''block-color-red''], attrs = []\<rparr>"
  have m: "match_color_class ''highlight-red'' = Some ''red''"
    by (simp add: match_color_class_def startswith_def is_key_char_def)
  have m': "match_color_class ''block-color-red'' = Some ''red''"
    by (simp add: match_color_class_def startswith_def is_key_char_def)
  have red: "CSS_COLOR_MAP ''red'' = Some ''red''"
    by (simp add: CSS_COLOR_MAP_def)
  have 1: "cls ?e = Some [''highlight-red'', ''note'', ''block-color-blue_background'']"
    and 2: "''highlight-red'' \<in> set [''highlight-red'', ''note'', ''block-color-blue_background'']"
    by simp_all
  have 3: "cls ?f = Some [''block-color-red'']" and 4: "''block-color-red'' \<in> set [''block-color-red'']"
    by simp_all
  note e = color_classes_become_inline_style [OF 1 2 m]
  note f = color_classes_become_inline_style [OF 3 4 m']
  from f red have "cls (convert_color_classes_to_inline ?f) = None \<and>
      get_style (convert_color_classes_to_inline ?f) = ''color:red''"
    by (simp add: m' get_style_def rstrip_chars_def strip_def lstrip_def rstrip_def)
  moreover from e have "cls (convert_color_classes_to_inline ?e) = Some [''note''] \<and>
      attrs (convert_color_classes_to_inline ?e) = [(''style'', ''font-weight:bold;color:red'')]"
    by (simp add: List.map_filter_simps match_color_class_def startswith_def is_key_char_def
        CSS_COLOR_MAP_def merge_style_def get_style_def rstrip_chars_def strip_def lstrip_def
        rstrip_def py_isspace_def)
  ultimately show ?thesis by simp
qed

section \<open>Properties of the tag extractor\<close>

lemma split_runs_no_sep:
  "\<forall>c \<in> set cur. \<not> p c \<Longrightarrow> t \<in> set (split_runs p cur s) \<Longrightarrow> c \<in> set t \<Longrightarrow> \<not> p c"
proof (induction p cur s arbitrary: t rule: split_runs.induct)
  case (1 p cur)
  then show ?case by auto
next
  case (2 p cur c' cs)
  then show ?case by (auto split: if_splits)
qed

lemma set_strip: "set (strip s) \<subseteq> set s"
proof -
  have "set (dropWhile py_isspace (rev (dropWhile py_isspace (rev s)))) \<subseteq> set (rev (dropWhile py_isspace (rev s)))"
    by (rule set_dropWhileD [THEN subsetI]) 
  also have "\<dots> \<subseteq> set s"
    using set_dropWhileD [of _ py_isspace "rev s"] by auto
  finally show ?thesis by (simp add: strip_def lstrip_def rstrip_def)
qed

lemma set_sub_spaces: "set (sub_spaces s) \<subseteq> insert CHR ''-'' (set s)"
proof (induction s rule: sub_spaces.induct)
  case 1
  show ?case by simp
next
  case (2 c cs)
  show ?case
  proof (cases "py_isspace c")
    case True
    with 2 have "set (sub_spaces (dropWhile py_isspace cs)) \<subseteq> insert CHR ''-'' (set (dropWhile py_isspace cs))"
      by simp
    moreover have "set (dropWhile py_isspace cs) \<subseteq> set cs"
      using set_dropWhileD by fastforce
    ultimately show ?thesis using True by auto
  next
    case False
    with 2 show ?thesis by auto
  qed
qed

lemma sub_spaces_nonempty: "s \<noteq> [] \<Longrightarrow> sub_spaces s \<noteq> []"
  by (cases s) auto

lemma strip_chars_id: "set s \<inter> set cs = {} \<Longrightarrow> strip_chars cs s = s"
proof -
  assume h: "set s \<inter> set cs = {}"
  have "dropWhile (\<lambda>c. c \<in> set cs) xs = xs" if "set xs \<inter> set cs = {}" for xs
    using that by (cases xs) auto
  from this [of "rev s"] this [of s] h show ?thesis
    by (simp add: strip_chars_def rstrip_chars_def)
qed

lemma tags_loop_first_seen:
  assumes "\<forall>t \<in> set toks. f t \<noteq> []"
    and "\<forall>t \<in> set toks. strip_chars '',;'' (sub_spaces (strip t)) = f t"
  shows "tags_loop toks (clean, set clean) =
     clean @ filter (\<lambda>t. t \<notin> set clean) (first_seen (map f toks))"
  using assms
proof (induction toks arbitrary: clean)
  case Nil
  show ?case by simp
next
  case (Cons x xs)
  have fx: "strip_chars '',;'' (sub_spaces (strip x)) = f x" and ne: "f x \<noteq> []"
    using Cons.prems by auto
  have ih: "tags_loop xs (c, set c) = c @ filter (\<lambda>t. t \<notin> set c) (first_seen (map f xs))" for c
    using Cons.IH [of c] Cons.prems by auto
  show ?case
  proof (cases "f x \<in> set clean")
    case True
    have "filter (\<lambda>t. t \<notin> set clean) (filter (\<lambda>y. y \<noteq> f x) ys) = filter (\<lambda>t. t \<notin> set clean) ys" for ys
      using True by (induction ys) auto
    with True fx ih [of clean] show ?thesis by (simp add: Let_def)
  next
    case False
    have "filter (\<lambda>t. t \<notin> set (clean @ [f x])) ys =
          filter (\<lambda>t. t \<notin> set clean) (filter (\<lambda>y. y \<noteq> f x) ys)" for ys
      by (induction ys) auto
    with False fx ne ih [of "clean @ [f x]"] show ?thesis by (simp add: Let_def)
  qed
qed

lemma last_dropWhile_nonempty:
  "dropWhile P ys \<noteq> [] \<Longrightarrow> last (dropWhile P ys) = last ys"
proof -
  assume h: "dropWhile P ys \<noteq> []"
  have "last ys = last (takeWhile P ys @ dropWhile P ys)" by simp
  also have "\<dots> = last (dropWhile P ys)" using h by (rule last_appendR)
  finally show ?thesis by simp
qed

lemma strip_ends:
  assumes "strip s \<noteq> []"
  shows "\<not> py_isspace (hd (strip s)) \<and> \<not> py_isspace (last (strip s))"
proof -
  let ?zs = "dropWhile py_isspace (rev s)"
  have s: "strip s = dropWhile py_isspace (rev ?zs)"
    by (simp add: strip_def lstrip_def rstrip_def)
  with assms have ne: "dropWhile py_isspace (rev ?zs) \<noteq> []" by simp
  have z: "?zs \<noteq> []"
  proof
    assume "?zs = []"
    then have "dropWhile py_isspace (rev ?zs) = []" by (simp only: rev.simps dropWhile.simps)
    with ne show False by blast
  qed
  have "last (strip s) = last (rev ?zs)"
    using last_dropWhile_nonempty [OF ne] s by simp
  also have "\<dots> = hd ?zs" using z by (simp add: last_rev)
  finally have "\<not> py_isspace (last (strip s))"
    using hd_dropWhile [OF z] by simp
  moreover have "\<not> py_isspace (hd (strip s))"
    using hd_dropWhile [OF ne] s by simp
  ultimately show ?thesis by simp
qed

lemma strip_strip: "strip (strip s) = strip s"
proof (cases "strip s = []")
  case True
  have "strip [] = []" by (simp add: strip_def lstrip_def rstrip_def)
  with True show ?thesis by simp
next
  case False
  from strip_ends [OF False] have h: "\<not> py_isspace (hd (strip s))" and l: "\<not> py_isspace (last (strip s))"
    by simp_all
  have "dropWhile py_isspace (rev (strip s)) = rev (strip s)"
    using False l by (cases "rev (strip s)") (auto simp: last_rev [symmetric] hd_rev)
  then have "rstrip (strip s) = strip s" by (simp add: rstrip_def)
  moreover have "lstrip (strip s) = strip s"
    using False h by (cases "strip s") (auto simp: lstrip_def)
  ultimately show ?thesis by (simp add: strip_def [of "strip s"])
qed

text \<open>
  Claim C4. The tag extractor computes what the specification describes: the visible text
  of the cell is split on the runs of comma, semicolon and newline, each piece is trimmed
  (blank pieces are dropped), each run of whitespace inside a piece becomes one dash, only
  the first occurrence of each resulting token is kept (tokens are compared as they are, so
  case matters), and the tokens are joined with single spaces. The code's further
  \<open>strip(",;")\<close> never changes a token. Empty text gives the empty string, and the text
  \<open>foo, Bar Baz;; qux\<close> gives \<open>foo Bar-Baz qux\<close>. The visible text leaves out what
  \<open>get_text\<close> leaves out: a cell that holds \<open>q\<close>, a style sheet, a script, a comment
  and \<open>r\<close> has the visible text \<open>q r\<close> and the tag \<open>q-r\<close>.
\<close>

theorem tags_from_cell_refines_spec:
  "tags_from_cell cell = tags_spec (get_text '' '' cell)
   \<and> tags_spec [] = []
   \<and> tags_spec ''foo, Bar Baz;; qux'' = ''foo Bar-Baz qux''
   \<and> tags_from_cell
        (Element i \<lparr>name = ''td'', cls = None, attrs = []\<rparr> [Text ''foo, Bar Baz;; qux'']) =
      ''foo Bar-Baz qux''
   \<and> tags_from_cell (Element i t []) = []
   \<and> tags_from_cell
        (Element i \<lparr>name = ''td'', cls = None, attrs = []\<rparr>
           [Text ''q'',
            Element j \<lparr>name = ''style'', cls = None, attrs = []\<rparr> [Special Stylesheet ''p{}''],
            Element k \<lparr>name = ''script'', cls = None, attrs = []\<rparr> [Special Script ''v''],
            Special Comment ''c'',
            Text ''r'']) = ''q-r''"
proof -
  let ?f = "\<lambda>t. sub_spaces (strip t)"
  let ?td = "\<lparr>name = ''td'', cls = None, attrs = []\<rparr>"
  have gen: "tags_from_cell c = tags_spec (get_text '' '' c)" for c
  proof -
    let ?raw = "get_text '' '' c"
    let ?pieces = "filter (\<lambda>t. strip t \<noteq> []) (split_runs is_tag_sep [] ?raw)"
    have a: "\<forall>t \<in> set (map strip ?pieces). ?f t \<noteq> []"
      using sub_spaces_nonempty by (auto simp: strip_strip)
    have b: "\<forall>t \<in> set (map strip ?pieces). strip_chars '',;'' (sub_spaces (strip t)) = ?f t"
    proof
      fix t assume "t \<in> set (map strip ?pieces)"
      then obtain u where u: "t = strip u" "u \<in> set (split_runs is_tag_sep [] ?raw)" by auto
      have "\<not> is_tag_sep ch" if "ch \<in> set u" for ch
        using split_runs_no_sep [of "[]" is_tag_sep u ?raw ch] u(2) that by simp
      then have "CHR '','' \<notin> set u" "CHR '';'' \<notin> set u"
        by (auto simp: is_tag_sep_def)
      moreover have "set (sub_spaces (strip t)) \<subseteq> insert CHR ''-'' (set u)"
        using set_sub_spaces [of "strip t"] set_strip [of t] set_strip [of u] u(1) by auto
      ultimately have "set (sub_spaces (strip t)) \<inter> set '',;'' = {}" by auto
      then show "strip_chars '',;'' (sub_spaces (strip t)) = ?f t"
        by (rule strip_chars_id)
    qed
    have "tags_loop (map strip ?pieces) ([], set []) =
        [] @ filter (\<lambda>t. t \<notin> set []) (first_seen (map ?f (map strip ?pieces)))"
      by (rule tags_loop_first_seen [OF a b])
    then show ?thesis
      by (simp add: tags_from_cell_def tags_spec_def Let_def strip_strip comp_def)
  qed
  have e: "tags_spec [] = []"
    by (simp add: tags_spec_def strip_def lstrip_def rstrip_def)
  have x: "tags_spec ''foo, Bar Baz;; qux'' = ''foo Bar-Baz qux''"
    by code_simp
  have y: "tags_spec ''q r'' = ''q-r''"
    by code_simp
  have g: "get_text '' '' (Element i ?td [Text ''foo, Bar Baz;; qux'']) = ''foo, Bar Baz;; qux''"
    by (simp add: get_text_def interesting_string_types_def strip_def lstrip_def rstrip_def
        py_isspace_def)
  have g': "get_text '' '' (Element i t []) = []"
    by (simp add: get_text_def)
  have g'': "get_text '' '' (Element i ?td
           [Text ''q'',
            Element j \<lparr>name = ''style'', cls = None, attrs = []\<rparr> [Special Stylesheet ''p{}''],
            Element k \<lparr>name = ''script'', cls = None, attrs = []\<rparr> [Special Script ''v''],
            Special Comment ''c'',
            Text ''r'']) = ''q r''"
    by (simp add: get_text_def interesting_string_types_def strip_def lstrip_def rstrip_def
        py_isspace_def)
  show ?thesis
    by (intro conjI; (simp only: gen e x y g g' g''))
qed

section \<open>Properties of the column map\<close>

lemma col_loop_snoc:
  "col_loop k (hs @ [h]) m =
     (case header_field h of None \<Rightarrow> col_loop k hs m
      | Some f \<Rightarrow> (col_loop k hs m)(f \<mapsto> k + length hs))"
  by (induction hs arbitrary: k m) (auto simp: header_field_def)

lemma col_loop_last:
  "col_loop k hs m key = Some i \<longleftrightarrow>
     (\<exists>j < length hs. i = k + j \<and> header_field (hs ! j) = Some key \<and>
        (\<forall>j'. j < j' \<and> j' < length hs \<longrightarrow> header_field (hs ! j') \<noteq> Some key))
     \<or> (m key = Some i \<and> (\<forall>j < length hs. header_field (hs ! j) \<noteq> Some key))"
proof (induction hs rule: rev_induct)
  case Nil
  show ?case by simp
next
  case (snoc h hs)
  show ?case
  proof (cases "header_field h = Some key")
    case True
    then have l: "col_loop k (hs @ [h]) m key = Some (k + length hs)"
      by (simp add: col_loop_snoc)
    show ?thesis
    proof
      assume "col_loop k (hs @ [h]) m key = Some i"
      with l have "i = k + length hs" by simp
      with True show "(\<exists>j < length (hs @ [h]). i = k + j \<and> header_field ((hs @ [h]) ! j) = Some key \<and>
        (\<forall>j'. j < j' \<and> j' < length (hs @ [h]) \<longrightarrow> header_field ((hs @ [h]) ! j') \<noteq> Some key))
     \<or> (m key = Some i \<and> (\<forall>j < length (hs @ [h]). header_field ((hs @ [h]) ! j) \<noteq> Some key))"
        by (intro disjI1 exI [of _ "length hs"]) auto
    next
      assume r: "(\<exists>j < length (hs @ [h]). i = k + j \<and> header_field ((hs @ [h]) ! j) = Some key \<and>
        (\<forall>j'. j < j' \<and> j' < length (hs @ [h]) \<longrightarrow> header_field ((hs @ [h]) ! j') \<noteq> Some key))
     \<or> (m key = Some i \<and> (\<forall>j < length (hs @ [h]). header_field ((hs @ [h]) ! j) \<noteq> Some key))"
      have "i = k + length hs"
      proof (rule ccontr)
        assume n: "i \<noteq> k + length hs"
        from r show False
        proof
          assume "\<exists>j < length (hs @ [h]). i = k + j \<and> header_field ((hs @ [h]) ! j) = Some key \<and>
            (\<forall>j'. j < j' \<and> j' < length (hs @ [h]) \<longrightarrow> header_field ((hs @ [h]) ! j') \<noteq> Some key)"
          then obtain j where j: "j < length (hs @ [h])" "i = k + j"
            "\<forall>j'. j < j' \<and> j' < length (hs @ [h]) \<longrightarrow> header_field ((hs @ [h]) ! j') \<noteq> Some key"
            by blast
          with n have "j < length hs" by auto
          with j(3) have "header_field ((hs @ [h]) ! length hs) \<noteq> Some key"
            by (auto dest: spec [of _ "length hs"])
          with True show False by simp
        next
          assume "m key = Some i \<and> (\<forall>j < length (hs @ [h]). header_field ((hs @ [h]) ! j) \<noteq> Some key)"
          then have "header_field ((hs @ [h]) ! length hs) \<noteq> Some key"
            by (auto dest: spec [of _ "length hs"])
          with True show False by simp
        qed
      qed
      with l show "col_loop k (hs @ [h]) m key = Some i" by simp
    qed
  next
    case False
    then have l: "col_loop k (hs @ [h]) m key = col_loop k hs m key"
      by (auto simp: col_loop_snoc split: option.splits)
    have a: "(\<exists>j < length (hs @ [h]). i = k + j \<and> header_field ((hs @ [h]) ! j) = Some key \<and>
        (\<forall>j'. j < j' \<and> j' < length (hs @ [h]) \<longrightarrow> header_field ((hs @ [h]) ! j') \<noteq> Some key))
      \<longleftrightarrow> (\<exists>j < length hs. i = k + j \<and> header_field (hs ! j) = Some key \<and>
        (\<forall>j'. j < j' \<and> j' < length hs \<longrightarrow> header_field (hs ! j') \<noteq> Some key))"
      using False by (auto simp: nth_append less_Suc_eq)
    have b: "(\<forall>j < length (hs @ [h]). header_field ((hs @ [h]) ! j) \<noteq> Some key)
      \<longleftrightarrow> (\<forall>j < length hs. header_field (hs ! j) \<noteq> Some key)"
      using False by (auto simp: nth_append less_Suc_eq)
    show ?thesis unfolding l snoc.IH a b ..
  qed
qed


lemma header_field_rules:
  "(header_field nm = Some ''id'' \<longleftrightarrow> contains nm ''notion-id'')
   \<and> (header_field nm = Some ''front'' \<longleftrightarrow> nm = ''front'')
   \<and> (header_field nm = Some ''back'' \<longleftrightarrow> nm = ''back'')
   \<and> (header_field nm = Some ''tags'' \<longleftrightarrow> contains nm ''tags'' \<and> \<not> contains nm ''notion-id'')"
proof -
  have f: "\<not> contains ''front'' ''notion-id''" "\<not> contains ''front'' ''tags''"
    and b: "\<not> contains ''back'' ''notion-id''" "\<not> contains ''back'' ''tags''"
    by (simp_all add: startswith_def)
  then show ?thesis by (auto simp: header_field_def)
qed

text \<open>
  Claim C5. When the document has a table with a header section, \<open>parse_table\<close> returns
  the table and a column map built from the header cells' lowercased, trimmed texts: the
  text of a header cell is its visible text, each string stripped of the whitespace at its
  ends, in lower case. A field is mapped to index \<open>i\<close> exactly when header \<open>i\<close> names the
  field and no later header names it (a later header overwrites an earlier one). The field
  a header names is decided by the first rule it satisfies: contains \<open>notion-id\<close> (id);
  else equals \<open>front\<close>; else equals \<open>back\<close>; else contains \<open>tags\<close>. So a header that
  contains both \<open>notion-id\<close> and \<open>tags\<close> names the id column only.
\<close>

theorem column_map_rules:
  assumes "find ''table'' soup = Some table" and "find ''thead'' table = Some thead"
  shows "\<exists>col_map. parse_table soup = Inr (table, col_map) \<and>
     (\<forall>key i. col_map key = Some i \<longleftrightarrow>
        i < length (headers_of thead) \<and> header_field (headers_of thead ! i) = Some key \<and>
        (\<forall>j. i < j \<and> j < length (headers_of thead) \<longrightarrow>
           header_field (headers_of thead ! j) \<noteq> Some key))
     \<and> (\<forall>nm. (header_field nm = Some ''id'' \<longleftrightarrow> contains nm ''notion-id'')
         \<and> (header_field nm = Some ''front'' \<longleftrightarrow> nm = ''front'')
         \<and> (header_field nm = Some ''back'' \<longleftrightarrow> nm = ''back'')
         \<and> (header_field nm = Some ''tags'' \<longleftrightarrow>
              contains nm ''tags'' \<and> \<not> contains nm ''notion-id'')
         \<and> (header_field nm = None \<longleftrightarrow>
              \<not> contains nm ''notion-id'' \<and> nm \<noteq> ''front'' \<and> nm \<noteq> ''back'' \<and>
              \<not> contains nm ''tags''))
     \<and> headers_of thead = map (\<lambda>th. lower (get_text [] th)) (find_all ''th'' thead)
     \<and> (\<forall>i s. get_text [] (Element i \<lparr>name = ''th'', cls = None, attrs = []\<rparr> [Text s]) = strip s)
     \<and> (\<forall>th. get_text [] th =
          concat (filter (\<lambda>s. s \<noteq> [])
            (map (\<lambda>p. strip (snd p))
               (filter (\<lambda>p. fst p \<in> set (interesting_string_types (node_name th)))
                  (typed_strings th)))))"
proof -
  let ?hs = "headers_of thead"
  let ?m = "col_loop 0 ?hs Map.empty"
  have p: "parse_table soup = Inr (table, ?m)"
    using assms by (simp add: parse_table_def)
  have c: "?m key = Some i \<longleftrightarrow>
        i < length ?hs \<and> header_field (?hs ! i) = Some key \<and>
        (\<forall>j. i < j \<and> j < length ?hs \<longrightarrow> header_field (?hs ! j) \<noteq> Some key)" for key i
    using col_loop_last [of 0 ?hs Map.empty key i] by auto
  have n: "header_field nm = None \<longleftrightarrow>
              \<not> contains nm ''notion-id'' \<and> nm \<noteq> ''front'' \<and> nm \<noteq> ''back'' \<and>
              \<not> contains nm ''tags''" for nm
    by (simp add: header_field_def)
  have j: "join [] xs = concat xs" for xs :: "string list"
  proof (induction xs)
    case Nil
    show ?case by simp
  next
    case (Cons x xs)
    then show ?case by (cases xs) simp_all
  qed
  have g: "get_text [] (Element i \<lparr>name = ''th'', cls = None, attrs = []\<rparr> [Text s]) = strip s" for i s
    by (simp add: get_text_def interesting_string_types_def)
  have t: "get_text [] th =
          concat (filter (\<lambda>s. s \<noteq> [])
            (map (\<lambda>p. strip (snd p))
               (filter (\<lambda>p. fst p \<in> set (interesting_string_types (node_name th)))
                  (typed_strings th))))" for th
    by (simp only: get_text_def j)
  from p c n header_field_rules g t show ?thesis
    by (simp add: headers_of_def)
qed

theorem column_map_rules_witness:
  "\<exists>col_map.
     parse_table
       (Element 0 \<lparr>name = ''[document]'', cls = None, attrs = []\<rparr>
         [Element 1 \<lparr>name = ''table'', cls = None, attrs = []\<rparr>
           [Element 2 \<lparr>name = ''thead'', cls = None, attrs = []\<rparr>
             [Element 3 \<lparr>name = ''tr'', cls = None, attrs = []\<rparr>
               [Element 4 \<lparr>name = ''th'', cls = None, attrs = []\<rparr> [Text '' Front ''],
                Element 5 \<lparr>name = ''th'', cls = None, attrs = []\<rparr> [Text ''Notion-ID''],
                Element 6 \<lparr>name = ''th'', cls = None, attrs = []\<rparr> [Text ''Back ''],
                Element 7 \<lparr>name = ''th'', cls = None, attrs = []\<rparr> [Text ''My Tags''],
                Element 8 \<lparr>name = ''th'', cls = None, attrs = []\<rparr> [Text ''Tags 2'']]]]]) =
     Inr (Element 1 \<lparr>name = ''table'', cls = None, attrs = []\<rparr>
           [Element 2 \<lparr>name = ''thead'', cls = None, attrs = []\<rparr>
             [Element 3 \<lparr>name = ''tr'', cls = None, attrs = []\<rparr>
               [Element 4 \<lparr>name = ''th'', cls = None, attrs = []\<rparr> [Text '' Front ''],
                Element 5 \<lparr>name = ''th'', cls = None, attrs = []\<rparr> [Text ''Notion-ID''],
                Element 6 \<lparr>name = ''th'', cls = None, attrs = []\<rparr> [Text ''Back ''],
                Element 7 \<lparr>name = ''th'', cls = None, attrs = []\<rparr> [Text ''My Tags''],
                Element 8 \<lparr>name = ''th'', cls = None, attrs = []\<rparr> [Text ''Tags 2'']]]], col_map)
     \<and> col_map ''id'' = Some 1 \<and> col_map ''front'' = Some 0 \<and> col_map ''back'' = Some 2
     \<and> col_map ''tags'' = Some 4"
proof -
  let ?thead = "Element 2 \<lparr>name = ''thead'', cls = None, attrs = []\<rparr>
             [Element 3 \<lparr>name = ''tr'', cls = None, attrs = []\<rparr>
               [Element 4 \<lparr>name = ''th'', cls = None, attrs = []\<rparr> [Text '' Front ''],
                Element 5 \<lparr>name = ''th'', cls = None, attrs = []\<rparr> [Text ''Notion-ID''],
                Element 6 \<lparr>name = ''th'', cls = None, attrs = []\<rparr> [Text ''Back ''],
                Element 7 \<lparr>name = ''th'', cls = None, attrs = []\<rparr> [Text ''My Tags''],
                Element 8 \<lparr>name = ''th'', cls = None, attrs = []\<rparr> [Text ''Tags 2'']]]"
  let ?table = "Element 1 \<lparr>name = ''table'', cls = None, attrs = []\<rparr> [?thead]"
  let ?soup = "Element 0 \<lparr>name = ''[document]'', cls = None, attrs = []\<rparr> [?table]"
  have 1: "find ''table'' ?soup = Some ?table"
    by (simp add: find_def find_all_def descendants_def)
  have 2: "find ''thead'' ?table = Some ?thead"
    by (simp add: find_def find_all_def descendants_def)
  have hs: "headers_of ?thead = [''front'', ''notion-id'', ''back'', ''my tags'', ''tags 2'']"
    by (simp add: headers_of_def find_all_def descendants_def get_text_def
        interesting_string_types_def strip_def lstrip_def
        rstrip_def py_isspace_def lower_def lower_char_def char_of_def bit_Suc_0_iff)
  from column_map_rules [OF 1 2]
  have "\<exists>col_map. parse_table ?soup = Inr (?table, col_map)"
    by (rule exE) (rule exI, erule conjunct1)
  then obtain col_map where p: "parse_table ?soup = Inr (?table, col_map)" ..
  have "parse_table ?soup = Inr (?table, col_loop 0 (headers_of ?thead) Map.empty)"
    by (simp only: parse_table_def 1 2 option.case)
  with p have m: "col_map = col_loop 0 [''front'', ''notion-id'', ''back'', ''my tags'', ''tags 2''] Map.empty"
    by (simp only: hs sum.inject prod.inject)
  have "col_map ''id'' = Some 1 \<and> col_map ''front'' = Some 0 \<and> col_map ''back'' = Some 2
     \<and> col_map ''tags'' = Some 4"
    unfolding m by (simp add: startswith_def)
  with p show ?thesis by (intro exI [of _ col_map]) (simp only: simp_thms)
qed

section \<open>Properties of the inline sanitizer\<close>

declare fence_sub.simps [simp del]

lemma convert_name: "name (convert_color_classes_to_inline el) = name el"
proof -
  have "name (snd (color_loop todo (classes, e))) = name e" for todo classes e
    by (induction todo arbitrary: classes e) (auto simp: merge_style_name split: option.splits)
  from this [of "the (cls el)" "the (cls el)" el] show ?thesis
    by (cases "cls el"; cases "color_loop (the (cls el)) (the (cls el), el)")
       (auto simp: convert_color_classes_to_inline_def)
qed

lemma tags_of_map_tags: "tags_of (map_tags f n) = map f (tags_of n)"
  by (induction n) (auto simp: map_concat comp_def cong: map_cong)

lemma tags_forest_map_tags:
  "concat (map tags_of (map (map_tags f) kids)) = map f (concat (map tags_of kids))"
  by (induction kids) (auto simp: tags_of_map_tags)

lemma tags_of_unwrap:
  "concat (map tags_of (unwrap_disallowed n)) = filter (\<lambda>t. name t \<in> ALLOWED_TAGS) (tags_of n)"
proof (induction n)
  case (Text s)
  show ?case by simp
next
  case (Special k s)
  show ?case by simp
next
  case (Element i t kids)
  have "concat (map tags_of (concat (map unwrap_disallowed kids))) =
        filter (\<lambda>t. name t \<in> ALLOWED_TAGS) (concat (map tags_of kids))"
    using Element.IH by (induction kids) auto
  then show ?case by simp
qed

lemma tags_forest_unwrap:
  "concat (map tags_of (concat (map unwrap_disallowed kids))) =
     filter (\<lambda>t. name t \<in> ALLOWED_TAGS) (concat (map tags_of kids))"
  by (induction kids) (auto simp: tags_of_unwrap)

lemma strings_of_map_tags: "strings_of (map_tags f n) = strings_of n"
  by (induction n) (auto simp: comp_def cong: map_cong)

lemma strings_forest_map_tags:
  "concat (map strings_of (map (map_tags f) kids)) = concat (map strings_of kids)"
  by (induction kids) (auto simp: strings_of_map_tags)

lemma strings_of_unwrap: "concat (map strings_of (unwrap_disallowed n)) = strings_of n"
proof (induction n)
  case (Text s)
  show ?case by simp
next
  case (Special k s)
  show ?case by simp
next
  case (Element i t kids)
  have "concat (map strings_of (concat (map unwrap_disallowed kids))) =
        concat (map strings_of kids)"
    using Element.IH by (induction kids) auto
  then show ?case by simp
qed

lemma strings_forest_unwrap:
  "concat (map strings_of (concat (map unwrap_disallowed kids))) = concat (map strings_of kids)"
  by (induction kids) (auto simp: strings_of_unwrap)

lemma tags_sanitize_contents:
  "concat (map tags_of (sanitize_contents kids)) =
     map strip_background (filter (\<lambda>t. name t \<in> ALLOWED_TAGS)
       (map (\<lambda>t. clean_link (color_span (rename_mark t))) (concat (map tags_of kids))))"
proof -
  have "concat (map tags_of (sanitize_contents kids)) =
     map strip_background (filter (\<lambda>t. name t \<in> ALLOWED_TAGS)
       (map clean_link (map color_span (map rename_mark (concat (map tags_of kids))))))"
    unfolding sanitize_contents_def
    by (simp only: tags_forest_map_tags tags_forest_unwrap)
  then show ?thesis by (simp add: comp_def)
qed

lemma strings_sanitize_contents:
  "concat (map strings_of (sanitize_contents kids)) = concat (map strings_of kids)"
  unfolding sanitize_contents_def
  by (simp only: strings_forest_map_tags strings_forest_unwrap)

lemma name_strip_background: "name (strip_background t) = name t"
  by (simp add: strip_background_def split: option.splits)

lemma name_clean_link: "name (clean_link t) = name t"
  by (simp add: clean_link_def split: option.splits)

lemma name_color_span: "name (color_span t) = name t"
  by (simp add: color_span_def convert_name)

lemma name_rename_mark: "name (rename_mark t) = (if name t = ''mark'' then ''span'' else name t)"
  by (simp add: rename_mark_def convert_name)

lemma tags_below_sanitize_tree:
  "tags_below (sanitize_tree cell) =
     map strip_background (filter (\<lambda>t. name t \<in> ALLOWED_TAGS)
       (map (\<lambda>t. clean_link (color_span (rename_mark t))) (tags_below cell)))"
  by (cases cell) (simp_all add: tags_below_def tags_sanitize_contents)

lemma fence_sub_no_fence: "find_fence s = None \<Longrightarrow> fence_sub f s = s"
  by (simp add: fence_sub.simps)

lemma fence_sub_open_fence:
  "find_fence s = Some (a, rest) \<Longrightarrow> find_fence rest = None \<Longrightarrow> fence_sub f s = s"
  by (simp add: fence_sub.simps)

lemma fence_sub_fence:
  "find_fence s = Some (a, rest) \<Longrightarrow> find_fence rest = Some (inner, b) \<Longrightarrow>
   fence_sub f s = a @ f inner @ fence_sub f b"
  by (simp add: fence_sub.simps)

lemma filter_map_preserved:
  "(\<And>x. P (f x) = P x) \<Longrightarrow> filter P (map f xs) = map f (filter P xs)"
  by (induction xs) auto

lemma sanitized_link:
  assumes "name t = ''a''"
  shows "strip_background (clean_link (color_span (rename_mark t))) =
     t\<lparr>cls := None,
       attrs := (case map_of (attrs t) ''href'' of None \<Rightarrow> []
                 | Some h \<Rightarrow> if h = [] then [] else [(''href'', h)])\<rparr>"
  using assms
  by (auto simp: rename_mark_def color_span_def clean_link_def strip_background_def
      split: option.splits)

lemma links_below_sanitize_tree:
  "filter (\<lambda>t. name t = ''a'') (tags_below (sanitize_tree cell)) =
     map (\<lambda>t. strip_background (clean_link (color_span (rename_mark t))))
       (filter (\<lambda>t. name t = ''a'') (tags_below cell))"
proof -
  let ?g = "\<lambda>t. clean_link (color_span (rename_mark t))"
  let ?a = "\<lambda>t. name t = ''a''"
  have g: "?a (?g t) = ?a t" for t
    by (simp add: name_clean_link name_color_span name_rename_mark)
  have "filter ?a (tags_below (sanitize_tree cell)) =
        map strip_background (filter ?a (filter (\<lambda>t. name t \<in> ALLOWED_TAGS) (map ?g (tags_below cell))))"
    unfolding tags_below_sanitize_tree
    by (rule filter_map_preserved) (simp add: name_strip_background)
  also have "filter ?a (filter (\<lambda>t. name t \<in> ALLOWED_TAGS) (map ?g (tags_below cell))) =
        filter ?a (map ?g (tags_below cell))"
    by (rule filter_cong [OF refl, THEN trans [OF filter_filter]]) (auto simp: ALLOWED_TAGS_def)
  also have "filter ?a (map ?g (tags_below cell)) = map ?g (filter ?a (tags_below cell))"
    by (rule filter_map_preserved) (rule g)
  finally show ?thesis by (simp add: comp_def)
qed


text \<open>
  Claim C7, as the code has it. In rich mode every link element loses all its attributes
  except a non-empty \<open>href\<close>: the links of the sanitized cell are the links of the cell, in
  their order, each with no class and with the single attribute \<open>href\<close> when it had a
  non-empty one, and with no attribute at all when it had no \<open>href\<close> or an empty one.
  A link with \<open>href="https://x"\<close>, a class and a style is written with only
  \<open>href="https://x"\<close>; a link without \<open>href\<close> is written as a plain \<open><a>\<close>.
\<close>

theorem links_keep_only_nonempty_href:
  "map (\<lambda>t. (name t, cls t, attrs t))
       (filter (\<lambda>t. name t = ''a'') (tags_below (sanitize_tree cell))) =
     map (\<lambda>t. (''a'', None,
                case map_of (attrs t) ''href'' of None \<Rightarrow> []
                | Some h \<Rightarrow> if h = [] then [] else [(''href'', h)]))
       (filter (\<lambda>t. name t = ''a'') (tags_below cell))
   \<and> sanitize_inline_html parse
        (Element i td
           [Element j \<lparr>name = ''a'', cls = Some [''c''],
                       attrs = [(''style'', ''color:red''), (''href'', ''https://x'')]\<rparr>
              [Text ''t'']]) False =
      ''<a href='' @ [CHR 0x22] @ ''https://x'' @ [CHR 0x22] @ ''>t</a>''
   \<and> sanitize_inline_html parse
        (Element i td
           [Element j \<lparr>name = ''a'', cls = Some [''c''], attrs = [(''style'', ''color:red'')]\<rparr>
              [Text ''t'']]) False = ''<a>t</a>''"
proof -
  let ?a = "\<lambda>t. name t = ''a''"
  let ?h = "\<lambda>t. case map_of (attrs t) ''href'' of None \<Rightarrow> []
                | Some h \<Rightarrow> if h = [] then [] else [(''href'', h)]"
  have "map (\<lambda>t. (name t, cls t, attrs t)) (filter ?a (tags_below (sanitize_tree cell))) =
        map (\<lambda>t. (name t, cls t, attrs t))
          (map (\<lambda>t. strip_background (clean_link (color_span (rename_mark t))))
             (filter ?a (tags_below cell)))"
    by (simp only: links_below_sanitize_tree)
  also have "\<dots> = map (\<lambda>t. (''a'', None, ?h t)) (filter ?a (tags_below cell))"
    unfolding map_map
    by (rule map_cong [OF refl]) (simp add: sanitized_link)
  finally have A: "map (\<lambda>t. (name t, cls t, attrs t)) (filter ?a (tags_below (sanitize_tree cell))) =
        map (\<lambda>t. (''a'', None, ?h t)) (filter ?a (tags_below cell))" .
  have t1: "sanitize_tree (Element i td
           [Element j \<lparr>name = ''a'', cls = Some [''c''],
                       attrs = [(''style'', ''color:red''), (''href'', ''https://x'')]\<rparr>
              [Text ''t'']]) =
        Element i td [Element j \<lparr>name = ''a'', cls = None, attrs = [(''href'', ''https://x'')]\<rparr>
              [Text ''t'']]"
    by (simp add: sanitize_contents_def rename_mark_def color_span_def clean_link_def
        ALLOWED_TAGS_def strip_background_def)
  have d1: "decode_contents (Element i td
          [Element j \<lparr>name = ''a'', cls = None, attrs = [(''href'', ''https://x'')]\<rparr>
              [Text ''t'']]) = ''<a href='' @ [CHR 0x22] @ ''https://x'' @ [CHR 0x22] @ ''>t</a>''"
    by (simp add: decode_contents_def void_elements_def cdata_containing_tags_def attribute_string_def sorted_attrs_def
        escape_def quoted_attribute_value_def)
  have f1: "find_fence (''<a href='' @ [CHR 0x22] @ ''https://x'' @ [CHR 0x22] @ ''>t</a>'') = None"
    by (simp add: startswith_def)
  have B: "sanitize_inline_html parse
        (Element i td
           [Element j \<lparr>name = ''a'', cls = Some [''c''],
                       attrs = [(''style'', ''color:red''), (''href'', ''https://x'')]\<rparr>
              [Text ''t'']]) False =
      ''<a href='' @ [CHR 0x22] @ ''https://x'' @ [CHR 0x22] @ ''>t</a>''"
    unfolding sanitize_inline_html_def t1 d1
    using fence_sub_no_fence [OF f1] by (simp add: startswith_def)
  have t2: "sanitize_tree (Element i td
           [Element j \<lparr>name = ''a'', cls = Some [''c''], attrs = [(''style'', ''color:red'')]\<rparr>
              [Text ''t'']]) =
        Element i td [Element j \<lparr>name = ''a'', cls = None, attrs = []\<rparr> [Text ''t'']]"
    by (simp add: sanitize_contents_def rename_mark_def color_span_def clean_link_def
        ALLOWED_TAGS_def strip_background_def)
  have d2: "decode_contents (Element i td
          [Element j \<lparr>name = ''a'', cls = None, attrs = []\<rparr> [Text ''t'']]) = ''<a>t</a>''"
    by (simp add: decode_contents_def void_elements_def cdata_containing_tags_def attribute_string_def sorted_attrs_def
        escape_def)
  have f2: "find_fence ''<a>t</a>'' = None"
    by (simp add: startswith_def)
  have C: "sanitize_inline_html parse
        (Element i td
           [Element j \<lparr>name = ''a'', cls = Some [''c''], attrs = [(''style'', ''color:red'')]\<rparr>
              [Text ''t'']]) False = ''<a>t</a>''"
    unfolding sanitize_inline_html_def t2 d2
    using fence_sub_no_fence [OF f2] by (simp add: startswith_def)
  from A B C show ?thesis by (simp only: simp_thms)
qed

text \<open>
  Claim C7 says that a link keeps its \<open>href\<close>. A link whose \<open>href\<close> is the empty string
  does not: \<open>if href\<close> is false for it, and the link is left with no attribute.
\<close>

theorem link_with_empty_href_loses_it:
  "sanitize_tree
     (Element 1 \<lparr>name = ''td'', cls = None, attrs = []\<rparr>
        [Element 2 \<lparr>name = ''a'', cls = None, attrs = [(''href'', ''''), (''title'', ''x'')]\<rparr>
           [Text ''t'']]) =
   Element 1 \<lparr>name = ''td'', cls = None, attrs = []\<rparr>
        [Element 2 \<lparr>name = ''a'', cls = None, attrs = []\<rparr> [Text ''t'']]
   \<and> sanitize_inline_html (\<lambda>s. Text s)
     (Element 1 \<lparr>name = ''td'', cls = None, attrs = []\<rparr>
        [Element 2 \<lparr>name = ''a'', cls = None, attrs = [(''href'', ''''), (''title'', ''x'')]\<rparr>
           [Text ''t'']]) False = ''<a>t</a>''"
proof -
  have t: "sanitize_tree
     (Element 1 \<lparr>name = ''td'', cls = None, attrs = []\<rparr>
        [Element 2 \<lparr>name = ''a'', cls = None, attrs = [(''href'', ''''), (''title'', ''x'')]\<rparr>
           [Text ''t'']]) =
   Element 1 \<lparr>name = ''td'', cls = None, attrs = []\<rparr>
        [Element 2 \<lparr>name = ''a'', cls = None, attrs = []\<rparr> [Text ''t'']]"
    by (simp add: sanitize_contents_def rename_mark_def color_span_def clean_link_def
        ALLOWED_TAGS_def strip_background_def)
  have d: "decode_contents (Element 1 \<lparr>name = ''td'', cls = None, attrs = []\<rparr>
        [Element 2 \<lparr>name = ''a'', cls = None, attrs = []\<rparr> [Text ''t'']]) = ''<a>t</a>''"
    by (simp add: decode_contents_def void_elements_def cdata_containing_tags_def attribute_string_def sorted_attrs_def
        escape_def)
  have f: "find_fence ''<a>t</a>'' = None"
    by (simp add: startswith_def)
  show ?thesis
    unfolding sanitize_inline_html_def t d
    by (simp add: startswith_def fence_sub_no_fence [OF f])
qed


text \<open>
  Claim C6. In rich mode every element whose tag is not in the allowed set is unwrapped.
  After the sanitizer every tag below the cell has an allowed name; the tags that remain
  are the cell's tags with an allowed name (a \<open>mark\<close> counts as the \<open>span\<close> it has been
  renamed to by then), in their order, so an unwrapped element leaves neither its tag nor
  its attributes; the strings below the cell are the same strings in the same order; and
  the contents of an unwrapped element stand at the element's place, between what came
  before it and what came after it. A heading with a class and a style around
  \<open>Hello <b>w</b>\<close> gives \<open>Hello <b>w</b>\<close>.
\<close>

theorem disallowed_tags_are_unwrapped:
  "list_all (\<lambda>t. name t \<in> ALLOWED_TAGS) (tags_below (sanitize_tree cell))
   \<and> tags_below (sanitize_tree cell) =
       map strip_background (filter (\<lambda>t. name t \<in> ALLOWED_TAGS)
         (map (\<lambda>t. clean_link (color_span (rename_mark t))) (tags_below cell)))
   \<and> map name (tags_below (sanitize_tree cell)) =
       filter (\<lambda>n. n \<in> ALLOWED_TAGS)
         (map (\<lambda>t. if name t = ''mark'' then ''span'' else name t) (tags_below cell))
   \<and> concat (map strings_of (contents (sanitize_tree cell))) =
       concat (map strings_of (contents cell))
   \<and> (name t \<notin> ALLOWED_TAGS \<longrightarrow>
        concat (map unwrap_disallowed (before @ [Element i t kids] @ after)) =
          concat (map unwrap_disallowed before) @ concat (map unwrap_disallowed kids)
          @ concat (map unwrap_disallowed after))
   \<and> sanitize_inline_html parse
        (Element i td
           [Element j \<lparr>name = ''h1'', cls = Some [''title''], attrs = [(''style'', ''margin:0'')]\<rparr>
              [Text ''Hello '', Element k \<lparr>name = ''b'', cls = None, attrs = []\<rparr> [Text ''w'']]])
        False = ''Hello <b>w</b>''"
proof -
  let ?g = "\<lambda>t. clean_link (color_span (rename_mark t))"
  have B: "tags_below (sanitize_tree cell) =
       map strip_background (filter (\<lambda>t. name t \<in> ALLOWED_TAGS) (map ?g (tags_below cell)))"
    by (rule tags_below_sanitize_tree)
  have A: "list_all (\<lambda>t. name t \<in> ALLOWED_TAGS) (tags_below (sanitize_tree cell))"
    unfolding B by (simp add: list_all_iff name_strip_background)
  have "map name (tags_below (sanitize_tree cell)) =
        map name (filter (\<lambda>t. name t \<in> ALLOWED_TAGS) (map ?g (tags_below cell)))"
    unfolding B by (simp add: name_strip_background comp_def)
  also have "\<dots> = filter (\<lambda>n. n \<in> ALLOWED_TAGS) (map name (map ?g (tags_below cell)))"
    by (simp add: filter_map comp_def)
  also have "map name (map ?g (tags_below cell)) =
        map (\<lambda>t. if name t = ''mark'' then ''span'' else name t) (tags_below cell)"
    by (simp add: name_clean_link name_color_span name_rename_mark comp_def)
  finally have C: "map name (tags_below (sanitize_tree cell)) =
       filter (\<lambda>n. n \<in> ALLOWED_TAGS)
         (map (\<lambda>t. if name t = ''mark'' then ''span'' else name t) (tags_below cell))" .
  have D: "concat (map strings_of (contents (sanitize_tree cell))) =
       concat (map strings_of (contents cell))"
    by (cases cell) (simp_all add: strings_sanitize_contents)
  have E: "concat (map unwrap_disallowed (before @ [Element i t kids] @ after)) =
          concat (map unwrap_disallowed before) @ concat (map unwrap_disallowed kids)
          @ concat (map unwrap_disallowed after)" if "name t \<notin> ALLOWED_TAGS"
    using that by simp
  have t: "sanitize_tree (Element i td
           [Element j \<lparr>name = ''h1'', cls = Some [''title''], attrs = [(''style'', ''margin:0'')]\<rparr>
              [Text ''Hello '', Element k \<lparr>name = ''b'', cls = None, attrs = []\<rparr> [Text ''w'']]]) =
        Element i td [Text ''Hello '', Element k \<lparr>name = ''b'', cls = None, attrs = []\<rparr> [Text ''w'']]"
    by (simp add: sanitize_contents_def rename_mark_def color_span_def clean_link_def
        ALLOWED_TAGS_def strip_background_def)
  have d: "decode_contents (Element i td
          [Text ''Hello '', Element k \<lparr>name = ''b'', cls = None, attrs = []\<rparr> [Text ''w'']]) =
          ''Hello <b>w</b>''"
    by (simp add: decode_contents_def void_elements_def cdata_containing_tags_def attribute_string_def sorted_attrs_def
        escape_def)
  have f: "find_fence ''Hello <b>w</b>'' = None"
    by (simp add: startswith_def)
  have F: "sanitize_inline_html parse
        (Element i td
           [Element j \<lparr>name = ''h1'', cls = Some [''title''], attrs = [(''style'', ''margin:0'')]\<rparr>
              [Text ''Hello '', Element k \<lparr>name = ''b'', cls = None, attrs = []\<rparr> [Text ''w'']]])
        False = ''Hello <b>w</b>''"
    unfolding sanitize_inline_html_def t d
    using fence_sub_no_fence [OF f] by (simp add: startswith_def)
  have E': "name t \<notin> ALLOWED_TAGS \<longrightarrow>
        concat (map unwrap_disallowed (before @ [Element i t kids] @ after)) =
          concat (map unwrap_disallowed before) @ concat (map unwrap_disallowed kids)
          @ concat (map unwrap_disallowed after)"
    by (rule impI) (rule E)
  show ?thesis by (intro conjI; (rule A B C D E' F))
qed

theorem disallowed_tags_are_unwrapped_witness:
  "concat (map unwrap_disallowed
     ([Text ''x''] @
      [Element 2 \<lparr>name = ''h1'', cls = Some [''title''], attrs = [(''style'', ''margin:0'')]\<rparr>
         [Text ''Hello '', Element 3 \<lparr>name = ''b'', cls = None, attrs = []\<rparr> [Text ''w'']]] @
      [Text ''y''])) =
   [Text ''x'', Text ''Hello '', Element 3 \<lparr>name = ''b'', cls = None, attrs = []\<rparr> [Text ''w''],
    Text ''y'']"
proof -
  have h: "name \<lparr>name = ''h1'', cls = Some [''title''], attrs = [(''style'', ''margin:0'')]\<rparr>
           \<notin> ALLOWED_TAGS"
    by (simp add: ALLOWED_TAGS_def)
  have b: "concat (map unwrap_disallowed
      [Text ''Hello '', Element 3 \<lparr>name = ''b'', cls = None, attrs = []\<rparr> [Text ''w'']]) =
      [Text ''Hello '', Element 3 \<lparr>name = ''b'', cls = None, attrs = []\<rparr> [Text ''w'']]"
    by (simp add: ALLOWED_TAGS_def)
  from disallowed_tags_are_unwrapped
    [of _ "\<lparr>name = ''h1'', cls = Some [''title''], attrs = [(''style'', ''margin:0'')]\<rparr>"
        "[Text ''x'']" 2
        "[Text ''Hello '', Element 3 \<lparr>name = ''b'', cls = None, attrs = []\<rparr> [Text ''w'']]"
        "[Text ''y'']"]
  have "concat (map unwrap_disallowed
     ([Text ''x''] @
      [Element 2 \<lparr>name = ''h1'', cls = Some [''title''], attrs = [(''style'', ''margin:0'')]\<rparr>
         [Text ''Hello '', Element 3 \<lparr>name = ''b'', cls = None, attrs = []\<rparr> [Text ''w'']]] @
      [Text ''y''])) =
     concat (map unwrap_disallowed [Text ''x'']) @
     concat (map unwrap_disallowed
      [Text ''Hello '', Element 3 \<lparr>name = ''b'', cls = None, attrs = []\<rparr> [Text ''w'']]) @
     concat (map unwrap_disallowed [Text ''y''])"
    using h by (simp only: simp_thms)
  then show ?thesis unfolding b by simp
qed

lemma find_fence_none: "\<not> contains s ''```'' \<Longrightarrow> find_fence s = None"
  by (induction s) auto

lemma startswith_append_long:
  "length p \<le> length a \<Longrightarrow> startswith (a @ b) p = startswith a p"
  by (simp add: startswith_def)

lemma find_fence_first:
  "\<not> contains (pre @ ''``'') ''```'' \<Longrightarrow> find_fence (pre @ ''```'' @ rest) = Some (pre, rest)"
proof (induction pre)
  case Nil
  show ?case by (simp add: startswith_def)
next
  case (Cons c p)
  from Cons.prems have n: "\<not> startswith ((c # p) @ ''``'') ''```''"
    and r: "\<not> contains (p @ ''``'') ''```''" by simp_all
  have "startswith (((c # p) @ ''``'') @ (''`'' @ rest)) ''```'' = startswith ((c # p) @ ''``'') ''```''"
    by (rule startswith_append_long) simp
  with n have "\<not> startswith ((c # p) @ ''```'' @ rest) ''```''" by simp
  with Cons.IH [OF r] show ?case by simp
qed

lemma fence_sub_region:
  assumes "\<not> contains (pre @ ''``'') ''```''" and "\<not> contains (inner @ ''``'') ''```''"
  shows "fence_sub f (pre @ ''```'' @ inner @ ''```'' @ post) = pre @ f inner @ fence_sub f post"
  using find_fence_first [OF assms(1), of "inner @ ''```'' @ post"]
    find_fence_first [OF assms(2), of post]
  by (rule fence_sub_fence)


lemma split_on_no_sep: "sep \<notin> set x \<Longrightarrow> split_on sep x = [x]"
  by (induction x) auto

lemma split_on_append:
  "sep \<notin> set x \<Longrightarrow> split_on sep (x @ sep # rest) = x # split_on sep rest"
  by (induction x) auto

lemma split_on_pieces: "d \<in> set (split_on sep s) \<Longrightarrow> sep \<notin> set d"
proof (induction s arbitrary: d)
  case Nil
  then show ?case by simp
next
  case (Cons c cs)
  then show ?case
    by (cases "split_on sep cs") (auto split: if_splits)
qed

lemma split_on_join:
  "ds \<noteq> [] \<Longrightarrow> \<forall>d \<in> set ds. sep \<notin> set d \<Longrightarrow> split_on sep (join [sep] ds) = ds"
proof (induction ds)
  case Nil
  then show ?case by simp
next
  case (Cons d ds)
  show ?case
  proof (cases ds)
    case Nil
    with Cons.prems show ?thesis by (simp add: split_on_no_sep)
  next
    case (Cons e es)
    with Cons.IH Cons.prems have "split_on sep (join [sep] (e # es)) = e # es" by simp
    with Cons Cons.prems show ?thesis by (simp add: split_on_append)
  qed
qed

lemma style_without_background_kept:
  "style_without_background st =
     join '';'' (filter (\<lambda>d. strip d \<noteq> [] \<and> \<not> startswith (strip d) ''background-color'')
       (split_on CHR '';'' st))"
  by (simp add: style_without_background_def Let_def conj_commute)

lemma style_without_background_split:
  assumes "filter (\<lambda>d. strip d \<noteq> [] \<and> \<not> startswith (strip d) ''background-color'')
       (split_on CHR '';'' st) \<noteq> []"
  shows "split_on CHR '';'' (style_without_background st) =
     filter (\<lambda>d. strip d \<noteq> [] \<and> \<not> startswith (strip d) ''background-color'')
       (split_on CHR '';'' st)"
  unfolding style_without_background_kept
  by (rule split_on_join [OF assms]) (auto dest: split_on_pieces)

lemma strip_background_style:
  assumes "map_of (attrs t) ''style'' = Some st"
  shows "get_style (strip_background t) = style_without_background st"
    and "name (strip_background t) = name t"
    and "cls (strip_background t) = cls t"
    and "k \<noteq> ''style'' \<Longrightarrow> map_of (attrs (strip_background t)) k = map_of (attrs t) k"
  using assms by (simp_all add: strip_background_def get_style_def update_conv')

lemma replace_absent: "\<not> contains s old \<Longrightarrow> replace old new s = s"
  by (induction s) auto

lemma fenced_print_example:
  assumes "contents (parse ''print(1)'') = [Text ''print(1)'']"
  shows "sanitize_inline_html parse (Element i td [Text ''before ```print(1)``` after'']) False =
         ''before '' @ monospace_div_open @ ''print(1)</div> after''"
proof -
  have t: "sanitize_tree (Element i td [Text ''before ```print(1)``` after'']) =
        Element i td [Text ''before ```print(1)``` after'']"
    by (simp add: sanitize_contents_def)
  have d: "decode_contents (Element i td [Text ''before ```print(1)``` after'']) =
        ''before ```print(1)``` after''"
    by (simp add: decode_contents_def escape_def)
  have r1: "replace ''<br>'' ''<br/>'' ''before ```print(1)``` after'' = ''before ```print(1)``` after''"
    by (rule replace_absent) (simp add: startswith_def)
  have r2: "replace ''<br />'' ''<br/>'' ''before ```print(1)``` after'' = ''before ```print(1)``` after''"
    by (rule replace_absent) (simp add: startswith_def)
  have r3: "replace ''<br/>'' [CHR 0x0A] ''before ```print(1)``` after'' = ''before ```print(1)``` after''"
    by (rule replace_absent) (simp add: startswith_def)
  have f: "fence_sub (fence_replacer parse) (''before '' @ ''```'' @ ''print(1)'' @ ''```'' @ '' after'') =
        ''before '' @ fence_replacer parse ''print(1)'' @ fence_sub (fence_replacer parse) '' after''"
    by (rule fence_sub_region) (simp_all add: startswith_def)
  have f2: "fence_sub (fence_replacer parse) '' after'' = '' after''"
    by (rule fence_sub_no_fence) (simp add: startswith_def)
  have fr: "fence_replacer parse ''print(1)'' = monospace_div_open @ ''print(1)</div>''"
    by (simp add: fence_replacer_def assms escape_def)
  have f': "fence_sub (fence_replacer parse) ''before ```print(1)``` after'' =
        ''before '' @ monospace_div_open @ ''print(1)</div> after''"
    using f unfolding f2 fr by simp
  have r4: "replace [CHR 0x0A] ''<br/>'' (''before '' @ monospace_div_open @ ''print(1)</div> after'') =
        ''before '' @ monospace_div_open @ ''print(1)</div> after''"
    by (rule replace_absent) (simp add: monospace_div_open_def startswith_def)
  show ?thesis
    unfolding sanitize_inline_html_def t d
    by (simp only: if_False Let_def r1 r2 r3 f' r4)
qed

lemma fenced_line_break_example:
  assumes "contents (parse (''a'' @ [CHR 0x0A] @ ''b'')) = [Text (''a'' @ [CHR 0x0A] @ ''b'')]"
  shows "sanitize_inline_html parse
          (Element i td [Text ''```a'', Element j \<lparr>name = ''br'', cls = None, attrs = []\<rparr> [],
                         Text ''b```'']) False =
         monospace_div_open @ ''a<br/>b</div>''"
proof -
  have t: "sanitize_tree (Element i td [Text ''```a'', Element j \<lparr>name = ''br'', cls = None, attrs = []\<rparr> [],
                         Text ''b```'']) =
        Element i td [Text ''```a'', Element j \<lparr>name = ''br'', cls = None, attrs = []\<rparr> [],
                         Text ''b```'']"
    by (simp add: sanitize_contents_def rename_mark_def color_span_def clean_link_def
        ALLOWED_TAGS_def strip_background_def)
  have d: "decode_contents (Element i td [Text ''```a'', Element j \<lparr>name = ''br'', cls = None, attrs = []\<rparr> [],
                         Text ''b```'']) = ''```a<br/>b```''"
    by (simp add: decode_contents_def escape_def void_elements_def cdata_containing_tags_def attribute_string_def
        sorted_attrs_def)
  have r1: "replace ''<br>'' ''<br/>'' ''```a<br/>b```'' = ''```a<br/>b```''"
    by (rule replace_absent) (simp add: startswith_def)
  have r2: "replace ''<br />'' ''<br/>'' ''```a<br/>b```'' = ''```a<br/>b```''"
    by (rule replace_absent) (simp add: startswith_def)
  have r3: "replace ''<br/>'' [CHR 0x0A] ''```a<br/>b```'' = ''```a'' @ [CHR 0x0A] @ ''b```''"
    by (simp add: startswith_def)
  have f: "fence_sub (fence_replacer parse) ([] @ ''```'' @ (''a'' @ [CHR 0x0A] @ ''b'') @ ''```'' @ []) =
        [] @ fence_replacer parse (''a'' @ [CHR 0x0A] @ ''b'') @ fence_sub (fence_replacer parse) []"
    by (rule fence_sub_region) (simp_all add: startswith_def)
  have f2: "fence_sub (fence_replacer parse) [] = []"
    by (rule fence_sub_no_fence) simp
  have fr: "fence_replacer parse (''a'' @ [CHR 0x0A] @ ''b'') =
        monospace_div_open @ ''a'' @ [CHR 0x0A] @ ''b</div>''"
    using assms by (simp add: fence_replacer_def escape_def)
  have f': "fence_sub (fence_replacer parse) (''```a'' @ [CHR 0x0A] @ ''b```'') =
        monospace_div_open @ ''a'' @ [CHR 0x0A] @ ''b</div>''"
    using f unfolding f2 fr by simp
  have r4: "replace [CHR 0x0A] ''<br/>'' (monospace_div_open @ ''a'' @ [CHR 0x0A] @ ''b</div>'') =
        monospace_div_open @ ''a<br/>b</div>''"
    by (simp add: monospace_div_open_def startswith_def)
  show ?thesis
    unfolding sanitize_inline_html_def t d
    by (simp only: if_False Let_def r1 r2 r3 f' r4)
qed


lemma fenced_styled_span_example:
  assumes "contents (parse (''<span style='' @ [CHR 0x22] @ ''color:red'' @ [CHR 0x22] @ ''>x</span>'')) =
     [Element k \<lparr>name = ''span'', cls = None, attrs = [(''style'', ''color:red'')]\<rparr> [Text ''x'']]"
  shows "sanitize_inline_html parse
          (Element i td
            [Text ''```'',
             Element j \<lparr>name = ''span'', cls = None,
                        attrs = [(''style'', ''color:red;background-color:yellow'')]\<rparr> [Text ''x''],
             Text ''```'']) False =
         monospace_div_open @ ''<span style='' @ [CHR 0x22] @ ''color:red'' @ [CHR 0x22]
           @ ''>x</span></div>''"
proof -
  let ?inner = "''<span style='' @ [CHR 0x22] @ ''color:red'' @ [CHR 0x22] @ ''>x</span>''"
  have sw: "style_without_background ''color:red;background-color:yellow'' = ''color:red''"
    by (simp add: style_without_background_def startswith_def strip_def lstrip_def rstrip_def
        py_isspace_def)
  have sw': "style_without_background ''color:red'' = ''color:red''"
    by (simp add: style_without_background_def startswith_def strip_def lstrip_def rstrip_def
        py_isspace_def)
  have t: "sanitize_tree (Element i td
            [Text ''```'',
             Element j \<lparr>name = ''span'', cls = None,
                        attrs = [(''style'', ''color:red;background-color:yellow'')]\<rparr> [Text ''x''],
             Text ''```'']) =
        Element i td
            [Text ''```'',
             Element j \<lparr>name = ''span'', cls = None, attrs = [(''style'', ''color:red'')]\<rparr> [Text ''x''],
             Text ''```'']"
    by (simp add: sanitize_contents_def rename_mark_def color_span_def clean_link_def
        ALLOWED_TAGS_def strip_background_def convert_color_classes_to_inline_def sw)
  have d: "decode_contents (Element i td
            [Text ''```'',
             Element j \<lparr>name = ''span'', cls = None, attrs = [(''style'', ''color:red'')]\<rparr> [Text ''x''],
             Text ''```'']) = ''```'' @ ?inner @ ''```''"
    by (simp add: decode_contents_def escape_def void_elements_def cdata_containing_tags_def attribute_string_def
        sorted_attrs_def quoted_attribute_value_def)
  have r1: "replace ''<br>'' ''<br/>'' (''```'' @ ?inner @ ''```'') = ''```'' @ ?inner @ ''```''"
    by (rule replace_absent) (simp add: startswith_def)
  have r2: "replace ''<br />'' ''<br/>'' (''```'' @ ?inner @ ''```'') = ''```'' @ ?inner @ ''```''"
    by (rule replace_absent) (simp add: startswith_def)
  have r3: "replace ''<br/>'' [CHR 0x0A] (''```'' @ ?inner @ ''```'') = ''```'' @ ?inner @ ''```''"
    by (rule replace_absent) (simp add: startswith_def)
  have f: "fence_sub (fence_replacer parse) ([] @ ''```'' @ ?inner @ ''```'' @ []) =
        [] @ fence_replacer parse ?inner @ fence_sub (fence_replacer parse) []"
    by (rule fence_sub_region) (simp_all add: startswith_def)
  have f2: "fence_sub (fence_replacer parse) [] = []"
    by (rule fence_sub_no_fence) simp
  have fr: "fence_replacer parse ?inner = monospace_div_open @ ?inner @ ''</div>''"
    unfolding fence_replacer_def assms
    by (simp add: escape_def strip_background_def sw' void_elements_def cdata_containing_tags_def attribute_string_def
        sorted_attrs_def quoted_attribute_value_def)
  have f': "fence_sub (fence_replacer parse) (''```'' @ ?inner @ ''```'') =
        monospace_div_open @ ?inner @ ''</div>''"
    using f unfolding f2 fr by simp
  have r4: "replace [CHR 0x0A] ''<br/>'' (monospace_div_open @ ?inner @ ''</div>'') =
        monospace_div_open @ ?inner @ ''</div>''"
    by (rule replace_absent) (simp add: monospace_div_open_def startswith_def)
  have "sanitize_inline_html parse
          (Element i td
            [Text ''```'',
             Element j \<lparr>name = ''span'', cls = None,
                        attrs = [(''style'', ''color:red;background-color:yellow'')]\<rparr> [Text ''x''],
             Text ''```'']) False = monospace_div_open @ ?inner @ ''</div>''"
    unfolding sanitize_inline_html_def t d
    by (simp only: if_False Let_def r1 r2 r3 f' r4)
  then show ?thesis by simp
qed


text \<open>
  Claim C8. In rich mode the serialized cell, with every line break written as a newline,
  is searched from left to right for three backticks; a fence and the next fence after it
  enclose a region (the match is not greedy, and it runs over newlines), the region is
  replaced by a \<open>div\<close> with the style
  \<open>font-family:Menlo,Consolas,'Courier New',monospace; white-space:pre\<close> around the
  region's content, and the search goes on behind the closing fence; text without a fence,
  and a fence with no fence after it, stay as they are. The content of the region is parsed
  again and the style of each of its elements loses the declarations that start with
  \<open>background-color\<close> (and the blank ones) and keeps every other declaration, in order,
  the text colour among them. \<open>parse\<close> is the library's HTML parser; the three examples
  hold for every parser that reads the region's text as the nodes it denotes.
\<close>

theorem fenced_regions_become_monospace_blocks:
  assumes "contents (parse ''print(1)'') = [Text ''print(1)'']"
    and "contents (parse (''a'' @ [CHR 0x0A] @ ''b'')) = [Text (''a'' @ [CHR 0x0A] @ ''b'')]"
    and "contents (parse (''<span style='' @ [CHR 0x22] @ ''color:red'' @ [CHR 0x22] @ ''>x</span>'')) =
     [Element k \<lparr>name = ''span'', cls = None, attrs = [(''style'', ''color:red'')]\<rparr> [Text ''x'']]"
  shows "(\<not> contains s ''```'' \<longrightarrow> fence_sub f s = s)
   \<and> (\<not> contains (pre @ ''``'') ''```'' \<and> \<not> contains (inner @ ''``'') ''```'' \<longrightarrow>
        fence_sub f (pre @ ''```'' @ inner @ ''```'' @ post) = pre @ f inner @ fence_sub f post)
   \<and> (\<not> contains (pre @ ''``'') ''```'' \<and> \<not> contains rest ''```'' \<longrightarrow>
        fence_sub f (pre @ ''```'' @ rest) = pre @ ''```'' @ rest)
   \<and> fence_replacer parse inner =
        monospace_div_open
        @ concat (map decode (map (map_tags strip_background) (contents (parse inner))))
        @ ''</div>''
   \<and> monospace_div_open =
        ''<div style='' @ [CHR 0x22] @ ''font-family:Menlo,Consolas,'' @ [CHR 0x27]
        @ ''Courier New'' @ [CHR 0x27] @ '',monospace; white-space:pre'' @ [CHR 0x22] @ ''>''
   \<and> sanitize_inline_html parse cell False =
        replace [CHR 0x0A] ''<br/>''
          (fence_sub (fence_replacer parse)
            (replace ''<br/>'' [CHR 0x0A]
              (replace ''<br />'' ''<br/>''
                (replace ''<br>'' ''<br/>'' (decode_contents (sanitize_tree cell))))))
   \<and> (map_of (attrs t) ''style'' = Some st \<longrightarrow>
        get_style (strip_background t) = style_without_background st
        \<and> name (strip_background t) = name t \<and> cls (strip_background t) = cls t)
   \<and> style_without_background st = join '';'' (filter (\<lambda>d. strip d \<noteq> [] \<and> \<not> startswith (strip d) ''background-color'')
              (split_on CHR '';'' st))
   \<and> (filter (\<lambda>d. strip d \<noteq> [] \<and> \<not> startswith (strip d) ''background-color'')
              (split_on CHR '';'' st) \<noteq> [] \<longrightarrow> split_on CHR '';'' (style_without_background st) = filter (\<lambda>d. strip d \<noteq> [] \<and> \<not> startswith (strip d) ''background-color'')
              (split_on CHR '';'' st))
   \<and> style_without_background ''color:red;background-color:yellow'' = ''color:red''
   \<and> sanitize_inline_html parse (Element i td [Text ''before ```print(1)``` after'']) False =
         ''before '' @ monospace_div_open @ ''print(1)</div> after''
   \<and> sanitize_inline_html parse
          (Element i td [Text ''```a'', Element j \<lparr>name = ''br'', cls = None, attrs = []\<rparr> [],
                         Text ''b```'']) False =
         monospace_div_open @ ''a<br/>b</div>''
   \<and> sanitize_inline_html parse
          (Element i td
            [Text ''```'',
             Element j \<lparr>name = ''span'', cls = None,
                        attrs = [(''style'', ''color:red;background-color:yellow'')]\<rparr> [Text ''x''],
             Text ''```'']) False =
         monospace_div_open @ ''<span style='' @ [CHR 0x22] @ ''color:red'' @ [CHR 0x22]
           @ ''>x</span></div>''"
proof -
  have A: "\<not> contains s ''```'' \<longrightarrow> fence_sub f s = s"
    by (simp add: find_fence_none fence_sub_no_fence)
  have B: "\<not> contains (pre @ ''``'') ''```'' \<and> \<not> contains (inner @ ''``'') ''```'' \<longrightarrow>
        fence_sub f (pre @ ''```'' @ inner @ ''```'' @ post) = pre @ f inner @ fence_sub f post"
    using fence_sub_region [of pre inner f post] by (rule_tac impI) (erule conjE)
  have C: "\<not> contains (pre @ ''``'') ''```'' \<and> \<not> contains rest ''```'' \<longrightarrow>
        fence_sub f (pre @ ''```'' @ rest) = pre @ ''```'' @ rest"
  proof (intro impI, elim conjE)
    assume 1: "\<not> contains (pre @ ''``'') ''```''" and 2: "\<not> contains rest ''```''"
    show "fence_sub f (pre @ ''```'' @ rest) = pre @ ''```'' @ rest"
      by (rule fence_sub_open_fence [OF find_fence_first [OF 1] find_fence_none [OF 2]])
  qed
  have D: "fence_replacer parse inner =
        monospace_div_open
        @ concat (map decode (map (map_tags strip_background) (contents (parse inner))))
        @ ''</div>''"
    by (simp add: fence_replacer_def)
  have E: "monospace_div_open =
        ''<div style='' @ [CHR 0x22] @ ''font-family:Menlo,Consolas,'' @ [CHR 0x27]
        @ ''Courier New'' @ [CHR 0x27] @ '',monospace; white-space:pre'' @ [CHR 0x22] @ ''>''"
    by (simp add: monospace_div_open_def)
  have F: "sanitize_inline_html parse cell False =
        replace [CHR 0x0A] ''<br/>''
          (fence_sub (fence_replacer parse)
            (replace ''<br/>'' [CHR 0x0A]
              (replace ''<br />'' ''<br/>''
                (replace ''<br>'' ''<br/>'' (decode_contents (sanitize_tree cell))))))"
    by (simp only: sanitize_inline_html_def Let_def if_False)
  have G: "map_of (attrs t) ''style'' = Some st \<longrightarrow>
        get_style (strip_background t) = style_without_background st
        \<and> name (strip_background t) = name t \<and> cls (strip_background t) = cls t"
    by (simp add: strip_background_style)
  have H: "style_without_background st = join '';'' (filter (\<lambda>d. strip d \<noteq> [] \<and> \<not> startswith (strip d) ''background-color'')
              (split_on CHR '';'' st))"
    by (rule style_without_background_kept)
  have I: "filter (\<lambda>d. strip d \<noteq> [] \<and> \<not> startswith (strip d) ''background-color'')
              (split_on CHR '';'' st) \<noteq> [] \<longrightarrow> split_on CHR '';'' (style_without_background st) = filter (\<lambda>d. strip d \<noteq> [] \<and> \<not> startswith (strip d) ''background-color'')
              (split_on CHR '';'' st)"
    by (rule impI) (rule style_without_background_split)
  have J: "style_without_background ''color:red;background-color:yellow'' = ''color:red''"
    by (simp add: style_without_background_def startswith_def strip_def lstrip_def rstrip_def
        py_isspace_def)
  note K = fenced_print_example [of parse i td, OF assms(1)]
  note L = fenced_line_break_example [of parse i td j, OF assms(2)]
  note M = fenced_styled_span_example [of parse k i td j, OF assms(3)]
  show ?thesis by (intro conjI; (rule A B C D E F G H I J K L M))
qed


theorem fenced_regions_become_monospace_blocks_witness:
  "sanitize_inline_html (\<lambda>s. if s = ''<span style='' @ [CHR 0x22] @ ''color:red'' @ [CHR 0x22] @ ''>x</span>''
            then Element 0 \<lparr>name = ''[document]'', cls = None, attrs = []\<rparr>
                   [Element 1 \<lparr>name = ''span'', cls = None, attrs = [(''style'', ''color:red'')]\<rparr>
                      [Text ''x'']]
            else Element 0 \<lparr>name = ''[document]'', cls = None, attrs = []\<rparr> [Text s]) (Element 1 \<lparr>name = ''td'', cls = None, attrs = []\<rparr> [Text ''before ```print(1)``` after'']) False =
     ''before '' @ monospace_div_open @ ''print(1)</div> after''
   \<and> sanitize_inline_html (\<lambda>s. if s = ''<span style='' @ [CHR 0x22] @ ''color:red'' @ [CHR 0x22] @ ''>x</span>''
            then Element 0 \<lparr>name = ''[document]'', cls = None, attrs = []\<rparr>
                   [Element 1 \<lparr>name = ''span'', cls = None, attrs = [(''style'', ''color:red'')]\<rparr>
                      [Text ''x'']]
            else Element 0 \<lparr>name = ''[document]'', cls = None, attrs = []\<rparr> [Text s])
       (Element 1 \<lparr>name = ''td'', cls = None, attrs = []\<rparr>
          [Text ''```'',
           Element 2 \<lparr>name = ''span'', cls = None,
                      attrs = [(''style'', ''color:red;background-color:yellow'')]\<rparr> [Text ''x''],
           Text ''```'']) False =
     monospace_div_open @ ''<span style='' @ [CHR 0x22] @ ''color:red'' @ [CHR 0x22]
       @ ''>x</span></div>''
   \<and> fence_sub (\<lambda>x. ''['' @ x @ '']'') ''a```b```c```d'' = ''a[b]c```d''"
proof -
  let ?P = "(\<lambda>s. if s = ''<span style='' @ [CHR 0x22] @ ''color:red'' @ [CHR 0x22] @ ''>x</span>''
            then Element 0 \<lparr>name = ''[document]'', cls = None, attrs = []\<rparr>
                   [Element 1 \<lparr>name = ''span'', cls = None, attrs = [(''style'', ''color:red'')]\<rparr>
                      [Text ''x'']]
            else Element 0 \<lparr>name = ''[document]'', cls = None, attrs = []\<rparr> [Text s])"
  let ?f = "\<lambda>x. ''['' @ x @ '']''"
  have h1: "contents (?P ''print(1)'') = [Text ''print(1)'']" by simp
  have h2: "contents (?P (''a'' @ [CHR 0x0A] @ ''b'')) = [Text (''a'' @ [CHR 0x0A] @ ''b'')]" by simp
  have h3: "contents (?P (''<span style='' @ [CHR 0x22] @ ''color:red'' @ [CHR 0x22] @ ''>x</span>'')) =
     [Element 1 \<lparr>name = ''span'', cls = None, attrs = [(''style'', ''color:red'')]\<rparr> [Text ''x'']]"
    by simp
  note T = fenced_regions_become_monospace_blocks
    [where parse = ?P and k = 1 and i = 1 and td = "\<lparr>name = ''td'', cls = None, attrs = []\<rparr>" and j = 2 and f = ?f
       and pre = "''a''" and inner = "''b''" and post = "''c```d''", OF h1 h2 h3]
  note U = fenced_regions_become_monospace_blocks
    [where parse = ?P and k = 1 and f = ?f and pre = "''c''" and rest = "''d''", OF h1 h2 h3]
  have e1: "sanitize_inline_html ?P (Element 1 \<lparr>name = ''td'', cls = None, attrs = []\<rparr> [Text ''before ```print(1)``` after'']) False =
     ''before '' @ monospace_div_open @ ''print(1)</div> after''"
    by (rule T [THEN conjunct2, THEN conjunct2, THEN conjunct2, THEN conjunct2, THEN conjunct2, THEN conjunct2, THEN conjunct2, THEN conjunct2, THEN conjunct2, THEN conjunct2, THEN conjunct1])
  have e3: "sanitize_inline_html ?P
       (Element 1 \<lparr>name = ''td'', cls = None, attrs = []\<rparr>
          [Text ''```'',
           Element 2 \<lparr>name = ''span'', cls = None,
                      attrs = [(''style'', ''color:red;background-color:yellow'')]\<rparr> [Text ''x''],
           Text ''```'']) False =
     monospace_div_open @ ''<span style='' @ [CHR 0x22] @ ''color:red'' @ [CHR 0x22]
       @ ''>x</span></div>''"
    by (rule T [THEN conjunct2, THEN conjunct2, THEN conjunct2, THEN conjunct2, THEN conjunct2, THEN conjunct2, THEN conjunct2, THEN conjunct2, THEN conjunct2, THEN conjunct2, THEN conjunct2, THEN conjunct2])
  note T [THEN conjunct2, THEN conjunct1]
  then have b: "fence_sub ?f ''a```b```c```d'' = ''a[b]'' @ fence_sub ?f ''c```d''"
    by (simp add: startswith_def)
  note U [THEN conjunct2, THEN conjunct2, THEN conjunct1]
  then have c: "fence_sub ?f ''c```d'' = ''c```d''"
    by (simp add: startswith_def)
  have e4: "fence_sub ?f ''a```b```c```d'' = ''a[b]c```d''"
    unfolding b c by simp
  show ?thesis by (intro conjI; (rule e1 e3 e4))
qed

section \<open>Properties of convert_file\<close>

lemma all_tags_trans: "d \<in> set (all_tags n) \<Longrightarrow> set (all_tags d) \<subseteq> set (all_tags n)"
proof (induction n)
  case (Text s)
  then show ?case by simp
next
  case (Special k s)
  then show ?case by simp
next
  case (Element i t kids)
  show ?case
  proof (cases "d = Element i t kids")
    case True
    then show ?thesis by simp
  next
    case False
    with Element.prems obtain k where k: "k \<in> set kids" "d \<in> set (all_tags k)" by auto
    with Element.IH have "set (all_tags d) \<subseteq> set (all_tags k)" by blast
    with k show ?thesis by auto
  qed
qed

lemma descendants_all_tags: "set (descendants n) \<subseteq> set (all_tags n)"
  by (cases n) (auto simp: descendants_def)

lemma find_all_all_tags: "d \<in> set (find_all nm n) \<Longrightarrow> d \<in> set (all_tags n)"
  using descendants_all_tags [of n] by (auto simp: find_all_def)

lemma find_all_tags: "find nm n = Some d \<Longrightarrow> d \<in> set (all_tags n)"
proof -
  assume "find nm n = Some d"
  then have "d \<in> set (find_all nm n)"
    by (auto simp: find_def split: list.splits)
  then show ?thesis by (rule find_all_all_tags)
qed

lemma find_distinct:
  "distinct (map f xs) \<Longrightarrow> d \<in> set xs \<Longrightarrow> List.find (\<lambda>x. f x = f d) xs = Some d"
  by (induction xs) (auto simp: image_iff)

lemma deref_member:
  "distinct_idents tree \<Longrightarrow> d \<in> set (all_tags tree) \<Longrightarrow> deref tree (ident_of d) = d"
  by (simp add: deref_def find_ident_def distinct_idents_def find_distinct)

lemma row_loop_skip:
  "\<forall>i \<in> set trs. find_all ''td'' (deref table i) = [] \<Longrightarrow>
   row_loop parse col_map trs (table, out) = Inr (table, out)"
  by (induction trs) (auto simp: convert_row_def)

lemma convert_row_fails:
  "col_map ''front'' = None \<or> col_map ''back'' = None \<Longrightarrow>
   find_all ''td'' (deref table i) \<noteq> [] \<Longrightarrow> \<exists>e. convert_row parse col_map table i = Inl e"
  by (auto simp: convert_row_def cell_at_def Let_def split: option.splits sum.splits)

lemma row_loop_fails:
  assumes "col_map ''front'' = None \<or> col_map ''back'' = None"
    and "i \<in> set trs" and "find_all ''td'' (deref table i) \<noteq> []"
  shows "\<exists>e. row_loop parse col_map trs (table, out) = Inl e"
  using assms(2)
proof (induction trs)
  case Nil
  then show ?case by simp
next
  case (Cons j trs)
  show ?case
  proof (cases "find_all ''td'' (deref table j) = []")
    case True
    with assms(3) have "i \<noteq> j" by auto
    with Cons have "\<exists>e. row_loop parse col_map trs (table, out) = Inl e" by simp
    moreover from True have "convert_row parse col_map table j = Inr (table, None)"
      by (simp add: convert_row_def)
    ultimately show ?thesis by simp
  next
    case False
    from convert_row_fails [OF assms(1) False] obtain e where
      "convert_row parse col_map table j = Inl e" by blast
    then show ?thesis by simp
  qed
qed

lemma csv_text_Nil: "csv_text [] = ''Notion-ID,Front,Back,Tags'' @ [CHR 0x0D, CHR 0x0A]"
  by (simp add: csv_text_def csv_record_def csv_field_def)

text \<open>
  Claim C9, as the code has it. When the input file exists, the document has a table with a header section
  and a body, no row of the body has a cell (the body is empty, or every row is skipped),
  and the output file can be opened and takes the header line, \<open>convert_file\<close> succeeds
  and writes a file that holds the header line \<open>Notion-ID,Front,Back,Tags\<close> and nothing
  else; nothing is asked of the column map, which may lack every column.
\<close>

theorem no_rows_with_cells_gives_header_only:
  assumes "files input_path = Some html"
    and "find ''table'' (parse html) = Some table"
    and "find ''thead'' table = Some thead"
    and "find ''tbody'' table = Some tbody"
    and "distinct_idents table"
    and "\<forall>tr \<in> set (find_all ''tr'' tbody). find_all ''td'' tr = []"
    and "env output_path = Room n" and "27 \<le> n"
  shows "convert_file parse env files input_path output_path =
     (Inr (), files(output_path \<mapsto> ''Notion-ID,Front,Back,Tags'' @ [CHR 0x0D, CHR 0x0A]))"
proof -
  have p: "parse_table (parse html) = Inr (table, col_loop 0 (headers_of thead) Map.empty)"
    using assms(2,3) by (simp add: parse_table_def)
  have "find_all ''td'' (deref table i) = []" if "i \<in> set (map ident_of (find_all ''tr'' tbody))" for i
  proof -
    from that obtain tr where tr: "tr \<in> set (find_all ''tr'' tbody)" "i = ident_of tr" by auto
    from find_all_tags [OF assms(4)] have "set (all_tags tbody) \<subseteq> set (all_tags table)"
      by (rule all_tags_trans)
    with find_all_all_tags [OF tr(1)] have "tr \<in> set (all_tags table)" by blast
    with assms(5) tr(2) have "deref table i = tr" by (simp add: deref_member)
    with assms(6) tr(1) show ?thesis by simp
  qed
  then have "row_loop parse (col_loop 0 (headers_of thead) Map.empty)
      (map ident_of (find_all ''tr'' tbody)) (table, []) = Inr (table, [])"
    by (intro row_loop_skip) blast
  moreover have "write_file env files output_path (csv_text []) =
      (Inr (), files(output_path \<mapsto> ''Notion-ID,Front,Back,Tags'' @ [CHR 0x0D, CHR 0x0A]))"
    using assms(7,8) by (simp add: write_file_def csv_text_Nil)
  ultimately show ?thesis
    using assms(1,4) p by (simp add: convert_file_def)
qed

theorem no_rows_with_cells_gives_header_only_witness:
  "convert_file (\<lambda>s. document table_with_blank_rows) (\<lambda>p. Room 100)
     [''in.html'' \<mapsto> ''<table>''] ''in.html'' ''out.csv'' =
     (Inr (), [''in.html'' \<mapsto> ''<table>'',
               ''out.csv'' \<mapsto> ''Notion-ID,Front,Back,Tags'' @ [CHR 0x0D, CHR 0x0A]])"
proof -
  let ?thead = "elem 2 ''thead'' [elem 3 ''tr'' [elem 4 ''th'' [Text ''Answer'']]]"
  let ?tbody = "elem 5 ''tbody'' [elem 6 ''tr'' [], elem 7 ''tr'' [elem 8 ''th'' [Text ''x'']]]"
  have 1: "[''in.html'' \<mapsto> ''<table>''] ''in.html'' = Some ''<table>''" by simp
  have 2: "find ''table'' ((\<lambda>s. document table_with_blank_rows) ''<table>'') = Some table_with_blank_rows"
    by (simp add: document_def table_with_blank_rows_def elem_def find_def find_all_def
        descendants_def)
  have 3: "find ''thead'' table_with_blank_rows = Some ?thead"
    by (simp add: table_with_blank_rows_def elem_def find_def find_all_def descendants_def)
  have 4: "find ''tbody'' table_with_blank_rows = Some ?tbody"
    by (simp add: table_with_blank_rows_def elem_def find_def find_all_def descendants_def)
  have 5: "distinct_idents table_with_blank_rows"
    by (simp add: table_with_blank_rows_def elem_def distinct_idents_def)
  have 6: "\<forall>tr \<in> set (find_all ''tr'' ?tbody). find_all ''td'' tr = []"
    by (simp add: elem_def find_all_def descendants_def)
  have 7: "(\<lambda>p. Room 100) ''out.csv'' = Room 100" by simp
  have 8: "(27::nat) \<le> 100" by simp
  show ?thesis
    by (rule no_rows_with_cells_gives_header_only
        [where parse = "\<lambda>s. document table_with_blank_rows" and html = "''<table>''"
           and files = "[''in.html'' \<mapsto> ''<table>'']" and input_path = "''in.html''"
           and env = "\<lambda>p. Room 100" and n = 100,
         OF 1 2 3 4 5 6 7 8])
qed

text \<open>
  Claim C9 says that the run succeeds whenever no row of the body has a cell. When the
  directory of the output path is missing, the run fails at \<open>open\<close> with
  \<open>FileNotFoundError\<close> and no file is written, though the body is empty.
\<close>

theorem output_that_cannot_be_opened:
  "convert_file (\<lambda>s. document table_with_empty_body) (\<lambda>p. Missing_Directory)
     [''in.html'' \<mapsto> ''<table>''] ''in.html'' ''missing/out.csv'' =
     (Inl FileNotFoundError, [''in.html'' \<mapsto> ''<table>''])"
proof -
  let ?thead = "elem 2 ''thead'' [elem 3 ''tr'' [elem 4 ''th'' [Text ''Answer'']]]"
  let ?tbody = "elem 5 ''tbody'' []"
  let ?m = "col_loop 0 (headers_of ?thead) Map.empty"
  have fl: "[''in.html'' \<mapsto> ''<table>''] ''in.html'' = Some ''<table>''" by simp
  have f1: "find ''table'' (document table_with_empty_body) = Some table_with_empty_body"
    by (simp add: document_def table_with_empty_body_def elem_def find_def find_all_def
        descendants_def)
  have f2: "find ''thead'' table_with_empty_body = Some ?thead"
    by (simp add: table_with_empty_body_def elem_def find_def find_all_def descendants_def)
  have p: "parse_table (document table_with_empty_body) = Inr (table_with_empty_body, ?m)"
    by (simp only: parse_table_def f1 f2 option.case)
  have tb: "find ''tbody'' table_with_empty_body = Some ?tbody"
    by (simp add: table_with_empty_body_def elem_def find_def find_all_def descendants_def)
  have trs: "map ident_of (find_all ''tr'' ?tbody) = []"
    by (simp add: elem_def find_all_def descendants_def)
  have w: "write_file (\<lambda>p. Missing_Directory) [''in.html'' \<mapsto> ''<table>''] ''missing/out.csv''
      (csv_text []) = (Inl FileNotFoundError, [''in.html'' \<mapsto> ''<table>''])"
    by (simp add: write_file_def)
  show ?thesis
    by (simp only: convert_file_def fl option.case p sum.case prod.case tb trs row_loop.simps w)
qed

lemma write_file_outcomes:
  "(\<exists>e. write_file env files path text = (Inl e, files))
   \<or> (\<exists>n. env path = Room n \<and> n < length text \<and>
         write_file env files path text = (Inl OSError, files(path \<mapsto> take n text)))
   \<or> write_file env files path text = (Inr (), files(path \<mapsto> text))"
  by (cases "env path") (simp_all add: write_file_def)

lemma convert_file_phases:
  "(\<exists>e. convert_file parse env files input_path output_path = (Inl e, files))
   \<or> (\<exists>rows_out. convert_file parse env files input_path output_path =
         write_file env files output_path (csv_text rows_out))"
  by (auto simp: convert_file_def split: option.splits sum.splits prod.splits)

lemma convert_file_outcomes:
  "(\<exists>e. convert_file parse env files input_path output_path = (Inl e, files))
   \<or> (\<exists>rows_out n. env output_path = Room n \<and> n < length (csv_text rows_out) \<and>
         convert_file parse env files input_path output_path =
           (Inl OSError, files(output_path \<mapsto> take n (csv_text rows_out))))
   \<or> (\<exists>rows_out. convert_file parse env files input_path output_path =
         (Inr (), files(output_path \<mapsto> csv_text rows_out)))"
proof -
  from convert_file_phases [of parse env files input_path output_path]
  show ?thesis
  proof
    assume "\<exists>e. convert_file parse env files input_path output_path = (Inl e, files)"
    then show ?thesis by (rule disjI1)
  next
    assume "\<exists>rows_out. convert_file parse env files input_path output_path =
         write_file env files output_path (csv_text rows_out)"
    then obtain rows_out where c: "convert_file parse env files input_path output_path =
         write_file env files output_path (csv_text rows_out)" ..
    from write_file_outcomes [of env files output_path "csv_text rows_out"]
    show ?thesis unfolding c [symmetric] by blast
  qed
qed

lemma convert_file_cannot_open:
  "env output_path = Missing_Directory \<or> env output_path = Cannot_Open \<Longrightarrow>
   \<exists>e. convert_file parse env files input_path output_path = (Inl e, files)"
  by (auto simp: convert_file_def write_file_def split: option.splits sum.splits prod.splits)

text \<open>
  Claim C1, as the code has it. When the \<open>front\<close> or the \<open>back\<close> column is not resolved
  and some row of the body has a cell, the run fails and leaves the files as they were.
  In general a run ends in one of three ways: it fails and leaves the files as they were
  (the input file is missing, the table, its header section or its body is missing, a row
  lookup fails, or the output file cannot be opened); or the write itself fails, and the
  output file holds the part of the CSV text that it took; or the run succeeds, and the
  output file holds the whole CSV text.
\<close>

theorem convert_file_fails_before_writing:
  "((\<exists>e. convert_file parse env files input_path output_path = (Inl e, files))
    \<or> (\<exists>rows_out n. env output_path = Room n \<and> n < length (csv_text rows_out) \<and>
          convert_file parse env files input_path output_path =
            (Inl OSError, files(output_path \<mapsto> take n (csv_text rows_out))))
    \<or> (\<exists>rows_out. convert_file parse env files input_path output_path =
          (Inr (), files(output_path \<mapsto> csv_text rows_out))))
   \<and> (env output_path = Missing_Directory \<or> env output_path = Cannot_Open \<longrightarrow>
        (\<exists>e. convert_file parse env files input_path output_path = (Inl e, files)))
   \<and> (files input_path = Some html \<and> parse_table (parse html) = Inr (table, col_map)
        \<and> (col_map ''front'' = None \<or> col_map ''back'' = None)
        \<and> find ''tbody'' table = Some tbody \<and> distinct_idents table
        \<and> tr \<in> set (find_all ''tr'' tbody) \<and> find_all ''td'' tr \<noteq> []
      \<longrightarrow> (\<exists>e. convert_file parse env files input_path output_path = (Inl e, files)))"
proof (intro conjI impI)
  show "(\<exists>e. convert_file parse env files input_path output_path = (Inl e, files))
    \<or> (\<exists>rows_out n. env output_path = Room n \<and> n < length (csv_text rows_out) \<and>
          convert_file parse env files input_path output_path =
            (Inl OSError, files(output_path \<mapsto> take n (csv_text rows_out))))
    \<or> (\<exists>rows_out. convert_file parse env files input_path output_path =
          (Inr (), files(output_path \<mapsto> csv_text rows_out)))"
    by (rule convert_file_outcomes)
next
  assume "env output_path = Missing_Directory \<or> env output_path = Cannot_Open"
  then show "\<exists>e. convert_file parse env files input_path output_path = (Inl e, files)"
    by (rule convert_file_cannot_open)
next
  assume h: "files input_path = Some html \<and> parse_table (parse html) = Inr (table, col_map)
        \<and> (col_map ''front'' = None \<or> col_map ''back'' = None)
        \<and> find ''tbody'' table = Some tbody \<and> distinct_idents table
        \<and> tr \<in> set (find_all ''tr'' tbody) \<and> find_all ''td'' tr \<noteq> []"
  then have tr: "tr \<in> set (find_all ''tr'' tbody)" and tb: "find ''tbody'' table = Some tbody"
    by simp_all
  from find_all_tags [OF tb] have "set (all_tags tbody) \<subseteq> set (all_tags table)"
    by (rule all_tags_trans)
  with find_all_all_tags [OF tr] have "tr \<in> set (all_tags table)" by blast
  with h have "deref table (ident_of tr) = tr" by (simp add: deref_member)
  with h have "find_all ''td'' (deref table (ident_of tr)) \<noteq> []" by simp
  moreover from tr have "ident_of tr \<in> set (map ident_of (find_all ''tr'' tbody))" by simp
  moreover from h have "col_map ''front'' = None \<or> col_map ''back'' = None" by simp
  ultimately obtain e where
    "row_loop parse col_map (map ident_of (find_all ''tr'' tbody)) (table, []) = Inl e"
    using row_loop_fails by blast
  with h show "\<exists>e. convert_file parse env files input_path output_path = (Inl e, files)"
    by (simp add: convert_file_def)
qed

theorem convert_file_fails_before_writing_witness:
  "\<exists>e. convert_file (\<lambda>s. document table_without_front_with_row) (\<lambda>p. Room 100)
         [''in.html'' \<mapsto> ''<table>''] ''in.html'' ''out.csv'' =
       (Inl e, [''in.html'' \<mapsto> ''<table>''])"
proof -
  let ?tr = "elem 7 ''tr'' [elem 8 ''td'' [Text ''n1''], elem 9 ''td'' [Text ''a1'']]"
  let ?tbody = "elem 6 ''tbody'' [?tr]"
  let ?m = "col_loop 0 [''notion-id'', ''back''] Map.empty"
  have hs: "headers_of (elem 2 ''thead'' [elem 3 ''tr'' [elem 4 ''th'' [Text ''Notion-ID''], elem 5 ''th'' [Text ''Back'']]])
        = [''notion-id'', ''back'']"
    by (simp add: headers_of_def elem_def find_all_def descendants_def get_text_def
        interesting_string_types_def strip_def
        lstrip_def rstrip_def py_isspace_def lower_def lower_char_def char_of_def bit_Suc_0_iff)
  have 1: "[''in.html'' \<mapsto> ''<table>''] ''in.html'' = Some ''<table>''" by simp
  have f1: "find ''table'' (document table_without_front_with_row) = Some table_without_front_with_row"
    by (simp add: document_def table_without_front_with_row_def elem_def find_def find_all_def
        descendants_def)
  have f2: "find ''thead'' table_without_front_with_row =
      Some (elem 2 ''thead'' [elem 3 ''tr'' [elem 4 ''th'' [Text ''Notion-ID''], elem 5 ''th'' [Text ''Back'']]])"
    by (simp add: table_without_front_with_row_def elem_def find_def find_all_def descendants_def)
  have 2: "parse_table ((\<lambda>s. document table_without_front_with_row) ''<table>'') =
      Inr (table_without_front_with_row, ?m)"
    by (simp only: parse_table_def f1 f2 option.case hs)
  have 3: "?m ''front'' = None \<or> ?m ''back'' = None"
    by (simp add: startswith_def)
  have 4: "find ''tbody'' table_without_front_with_row = Some ?tbody"
    by (simp add: table_without_front_with_row_def elem_def find_def find_all_def descendants_def)
  have 5: "distinct_idents table_without_front_with_row"
    by (simp add: table_without_front_with_row_def elem_def distinct_idents_def)
  have 6: "?tr \<in> set (find_all ''tr'' ?tbody)"
    by (simp add: elem_def find_all_def descendants_def)
  have 7: "find_all ''td'' ?tr \<noteq> []"
    by (simp add: elem_def find_all_def descendants_def)
  note T = convert_file_fails_before_writing
    [where parse = "\<lambda>s. document table_without_front_with_row" and html = "''<table>''"
       and env = "\<lambda>p. Room 100"
       and files = "[''in.html'' \<mapsto> ''<table>'']" and input_path = "''in.html''"
       and output_path = "''out.csv''" and table = table_without_front_with_row
       and col_map = ?m and tbody = ?tbody and tr = ?tr, THEN conjunct2, THEN conjunct2]
  show ?thesis
    by (rule T [rule_format]) (intro conjI; (rule 1 2 3 4 5 6 7))
qed

text \<open>
  Claim C1 says that a run fails whenever the \<open>front\<close> or the \<open>back\<close> column is not
  resolved, and that a run that fails leaves no output. With the headers Question and Back
  the column map has no \<open>front\<close>, but the only body row has no cells, no row is looked up,
  and the run succeeds and writes the header line. And when the output file takes only ten
  characters, the same run fails in the write and leaves a file with the first ten
  characters of the header line.
\<close>

theorem missing_front_still_writes_output:
  "(case parse_table (document table_without_front) of
      Inl e \<Rightarrow> None | Inr (table, col_map) \<Rightarrow> Some (col_map ''front'')) = Some None
   \<and> convert_file (\<lambda>s. document table_without_front) (\<lambda>p. Room 100)
        [''in.html'' \<mapsto> ''<table>''] ''in.html'' ''out.csv'' =
      (Inr (), [''in.html'' \<mapsto> ''<table>'',
                ''out.csv'' \<mapsto> ''Notion-ID,Front,Back,Tags'' @ [CHR 0x0D, CHR 0x0A]])
   \<and> convert_file (\<lambda>s. document table_without_front) (\<lambda>p. Room 10)
        [''in.html'' \<mapsto> ''<table>''] ''in.html'' ''out.csv'' =
      (Inl OSError, [''in.html'' \<mapsto> ''<table>'', ''out.csv'' \<mapsto> ''Notion-ID,''])"
proof -
  let ?thead = "elem 2 ''thead'' [elem 3 ''tr'' [elem 4 ''th'' [Text ''Question''], elem 5 ''th'' [Text ''Back'']]]"
  let ?tbody = "elem 6 ''tbody'' [elem 7 ''tr'' []]"
  let ?m = "col_loop 0 [''question'', ''back''] Map.empty"
  have hs: "headers_of ?thead = [''question'', ''back'']"
    by (simp add: headers_of_def elem_def find_all_def descendants_def get_text_def
        interesting_string_types_def strip_def
        lstrip_def rstrip_def py_isspace_def lower_def lower_char_def char_of_def bit_Suc_0_iff)
  have f1: "find ''table'' (document table_without_front) = Some table_without_front"
    by (simp add: document_def table_without_front_def elem_def find_def find_all_def
        descendants_def)
  have f2: "find ''thead'' table_without_front = Some ?thead"
    by (simp add: table_without_front_def elem_def find_def find_all_def descendants_def)
  have p: "parse_table (document table_without_front) = Inr (table_without_front, ?m)"
    by (simp only: parse_table_def f1 f2 option.case hs)
  have m: "?m ''front'' = None"
    by (simp add: startswith_def)
  have tb: "find ''tbody'' table_without_front = Some ?tbody"
    by (simp add: table_without_front_def elem_def find_def find_all_def descendants_def)
  have trs: "map ident_of (find_all ''tr'' ?tbody) = [7]"
    by (simp add: elem_def find_all_def descendants_def)
  have d: "find_all ''td'' (deref table_without_front 7) = []"
    by (simp add: table_without_front_def elem_def deref_def find_ident_def find_all_def
        descendants_def)
  have l: "row_loop (\<lambda>s. document table_without_front) ?m [7] (table_without_front, []) =
      Inr (table_without_front, [])"
    by (rule row_loop_skip) (simp add: d)
  have fl: "[''in.html'' \<mapsto> ''<table>''] ''in.html'' = Some ''<table>''" by simp
  have w1: "write_file (\<lambda>p. Room 100) [''in.html'' \<mapsto> ''<table>''] ''out.csv'' (csv_text []) =
      (Inr (), [''in.html'' \<mapsto> ''<table>'',
                ''out.csv'' \<mapsto> ''Notion-ID,Front,Back,Tags'' @ [CHR 0x0D, CHR 0x0A]])"
    by (simp add: write_file_def csv_text_Nil)
  have w2: "write_file (\<lambda>p. Room 10) [''in.html'' \<mapsto> ''<table>''] ''out.csv'' (csv_text []) =
      (Inl OSError, [''in.html'' \<mapsto> ''<table>'', ''out.csv'' \<mapsto> ''Notion-ID,''])"
    by (simp add: write_file_def csv_text_Nil)
  have cv: "convert_file (\<lambda>s. document table_without_front) env [''in.html'' \<mapsto> ''<table>'']
        ''in.html'' ''out.csv'' =
      write_file env [''in.html'' \<mapsto> ''<table>''] ''out.csv'' (csv_text [])" for env
    by (simp only: convert_file_def fl option.case p sum.case prod.case tb trs l)
  show ?thesis
    by (simp only: p sum.case prod.case m cv w1 w2 simp_thms)
qed


lemma convert_row_with_tags:
  assumes "find_all ''td'' (deref table tr) = tds" and "tds \<noteq> []"
    and "col_map ''id'' = Some a" and "col_map ''front'' = Some b" and "col_map ''back'' = Some c"
    and "col_map ''tags'' = Some d" and "a < length tds" and "b < length tds" and "c < length tds"
    and "d < length tds"
  shows "convert_row parse col_map table tr =
     Inr (update_ident (ident_of (tds ! c)) sanitize_tree table,
          Some \<lparr>Notion_ID = get_text [] (tds ! a), Front = get_text '' '' (tds ! b),
                Back = sanitize_inline_html parse (tds ! c) False,
                Tags = tags_from_cell
                  (deref (update_ident (ident_of (tds ! c)) sanitize_tree table)
                     (ident_of (tds ! d)))\<rparr>)"
  using assms
  by (simp add: convert_row_def cell_at_def Let_def sanitize_inline_html_def dom_def)


lemma convert_row_no_front:
  assumes "find_all ''td'' (deref table tr) = tds" and "tds \<noteq> []"
    and "col_map ''id'' = Some a" and "a < length tds" and "col_map ''front'' = None"
  shows "convert_row parse col_map table tr = Inl (KeyError ''front'')"
  using assms by (simp add: convert_row_def cell_at_def Let_def)

lemma convert_row_no_back:
  assumes "find_all ''td'' (deref table tr) = tds" and "tds \<noteq> []"
    and "col_map ''id'' = Some a" and "a < length tds"
    and "col_map ''front'' = Some b" and "b < length tds" and "col_map ''back'' = None"
  shows "convert_row parse col_map table tr = Inl (KeyError ''back'')"
  using assms by (simp add: convert_row_def cell_at_def Let_def)



























end
